theory Spec2Isabelle
  imports Main "HOL-Library.AList"
begin

section \<open>The snapshot stream writer\<close>

text \<open>
  A shallow embedding of \<^verbatim>\<open>tensorflow/core/data/service/snapshot/snapshot_stream_writer.cc\<close>.
  The member functions of \<^verbatim>\<open>SnapshotStreamWriter\<close> become functions that take the
  object and return it updated, together with the \<^verbatim>\<open>Status\<close> they return.

  Member names lose their trailing underscore (\<open>chunk_index\<close> is \<^verbatim>\<open>chunk_index_\<close>).

  \<^verbatim>\<open>chunk_index_\<close> is an \<^verbatim>\<open>int64_t\<close> in the source: it is an \<open>int\<close> here, and the two
  places that add one to an index (\<^verbatim>\<open>++chunk_index_\<close> and \<^verbatim>\<open>*checkpoint_index + 1\<close>) wrap
  around in two's complement, written out in \<open>int64_t\<close>. \<^verbatim>\<open>chunk_size_bytes_\<close> is the sum of
  the size estimates of the elements of one chunk, an \<open>int\<close>.
\<close>

subsection \<open>Status\<close>

datatype code = CANCELLED | INTERNAL | NOT_FOUND | INVALID_ARGUMENT | UNAVAILABLE

datatype status = OkStatus | Error code

fun ok :: "status \<Rightarrow> bool" where
  "ok OkStatus = True"
| "ok (Error c) = False"

fun IsNotFound :: "status \<Rightarrow> bool" where
  "IsNotFound (Error NOT_FOUND) = True"
| "IsNotFound st = False"

subsection \<open>File names\<close>

definition is_digit :: "char \<Rightarrow> bool" where
  "is_digit c = (c \<in> set ''0123456789'')"

definition digit_value :: "char \<Rightarrow> int" where
  "digit_value c = of_char c - 48"

definition digit_char :: "int \<Rightarrow> char" where
  "digit_char d = char_of (48 + d)"

definition decimal_value :: "string \<Rightarrow> int" where
  "decimal_value ds = foldl (\<lambda>acc c. 10 * acc + digit_value c) 0 ds"

function decimal :: "int \<Rightarrow> string" where
  "decimal n = (if n < 10 then [digit_char n] else decimal (n div 10) @ [digit_char (n mod 10)])"
  by pat_completeness auto
termination
  by (relation "measure nat") auto

declare decimal.simps [simp del]

text \<open>\<^verbatim>\<open>absl::StrCat(s, i)\<close> for an \<^verbatim>\<open>int64_t\<close> \<open>i\<close>.\<close>

definition StrCat :: "string \<Rightarrow> int \<Rightarrow> string" where
  "StrCat s i = s @ (if i < 0 then CHR ''-'' # decimal (- i) else decimal i)"

definition ends_with :: "string \<Rightarrow> string \<Rightarrow> bool" where
  "ends_with s suffix =
     (length suffix \<le> length s \<and> drop (length s - length suffix) s = suffix)"

definition kint64max :: int where
  "kint64max = 9223372036854775807"

text \<open>The value of an \<^verbatim>\<open>int64_t\<close> expression whose exact value is \<open>x\<close>.\<close>

definition int64_t :: "int \<Rightarrow> int" where
  "int64_t x = (x + 9223372036854775808) mod 18446744073709551616 - 9223372036854775808"

text \<open>
  \<^verbatim>\<open>GetFileIndex\<close> builds the regular expression \<^verbatim>\<open>prefix_(\d+)$\<close> and applies
  \<^verbatim>\<open>RE2::PartialMatch\<close>, which is not anchored at the start of the name, and which fails
  when the digits do not fit the \<^verbatim>\<open>int64_t\<close> they are parsed into. The group \<^verbatim>\<open>(\d+)\<close>
  is followed by the end of the text and preceded by an underscore, so it is the longest
  run of digits at the end of the name. Both callers pass a plain word as the prefix
  (\<^verbatim>\<open>chunk\<close>, \<^verbatim>\<open>checkpoint\<close>); the model compares it literally.
\<close>

definition GetFileIndex :: "string \<Rightarrow> string \<Rightarrow> code + int" where
  "GetFileIndex filename prefix =
     (let digits = rev (takeWhile is_digit (rev filename));
          stem = rev (dropWhile is_digit (rev filename))
      in if digits \<noteq> [] \<and> ends_with stem (prefix @ ''_'') \<and> decimal_value digits \<le> kint64max
         then Inr (decimal_value digits)
         else Inl INTERNAL)"

text \<open>
  The filename grammar of the specification, \<^verbatim>\<open><prefix>_<digits>\<close>, read as a pattern for
  the whole name.
\<close>

definition matches_prefix_digits :: "string \<Rightarrow> string \<Rightarrow> bool" where
  "matches_prefix_digits filename prefix =
     (let digits = drop (length prefix + 1) filename
      in take (length prefix + 1) filename = prefix @ ''_'' \<and> digits \<noteq> [] \<and> list_all is_digit digits)"

subsection \<open>Files, the element source and the writer object\<close>

datatype directory =
  CommittedChunksDirectory | UncommittedChunksDirectory | CheckpointsDirectory | LocalTempDirectory

text \<open>\<^verbatim>\<open>tsl::io::JoinPath(directory, name)\<close> is the pair; \<^verbatim>\<open>tsl::io::Basename\<close> is \<open>snd\<close>.\<close>

type_synonym path = "directory \<times> string"

text \<open>
  A tensor is either a component of an element or the serialized position of the
  iterator (the \<^verbatim>\<open>DT_VARIANT\<close> tensor that \<^verbatim>\<open>TaskIterator::Save\<close> returns). A TFRecord
  file is the list of the tensors written to it.
\<close>

datatype 'a tensor = Data 'a | Variant nat

type_synonym 'a file_system = "(path \<times> 'a tensor list) list"

text \<open>
  The object. \<open>max_chunk_size_bytes\<close> is the field of \<^verbatim>\<open>params_\<close> that the file reads;
  \<open>estimated_size_bytes\<close> stands for \<^verbatim>\<open>EstimatedSizeBytes\<close> of \<^verbatim>\<open>utils.h\<close>, which is
  not part of the sources. The collaborators behind \<^verbatim>\<open>params_.env\<close> and \<^verbatim>\<open>iterator_\<close> are
  kept in the same record:

  \<^item> \<open>files\<close> is the file system: an association list from paths to contents, read
    through \<open>map_of\<close>;
  \<^item> \<open>history\<close> lists every state the file system has been in, in order: a process that
    dies leaves the files in one of these states;
  \<^item> \<open>fault\<close> is \<open>Some (n, c)\<close> when the call to a collaborator that comes after \<open>n\<close>
    more calls fails with code \<open>c\<close>;
  \<^item> \<open>elements\<close> and \<open>cursor\<close> are the element source: a finite sequence of elements
    and the number of them already produced;
  \<^item> \<open>cancel_in\<close> is \<open>Some n\<close> when the controlling thread's \<^verbatim>\<open>Cancel()\<close> takes the
    mutex after \<open>n\<close> more acquisitions by the snapshot thread and \<^verbatim>\<open>Wait()\<close>;
  \<^item> \<open>snapshot_thread\<close> tells whether the thread object is still owned (not joined).
\<close>

record 'a writer =
  max_chunk_size_bytes :: int
  estimated_size_bytes :: "'a tensor list \<Rightarrow> int"
  chunk_index :: int
  chunk_size_bytes :: int
  end_of_sequence :: bool
  status :: status
  snapshot_thread :: bool
  cancel_in :: "nat option"
  elements :: "'a tensor list list"
  cursor :: nat
  files :: "'a file_system"
  history :: "'a file_system list"
  fault :: "(nat \<times> code) option"

subsection \<open>The collaborators\<close>

text \<open>
  Modelled from the spec: the File Store (\<^verbatim>\<open>tsl::Env\<close>), the record writer and reader
  (\<^verbatim>\<open>snapshot_util::TFRecordWriter\<close>, \<^verbatim>\<open>TFRecordReader\<close>) and the Element Source
  (\<^verbatim>\<open>TaskIterator\<close>) are declared outside the sources. Every call to one of them can fail:
  \<open>external_call\<close> counts the calls and makes the chosen one fail.
\<close>

definition external_call :: "'a writer \<Rightarrow> status \<times> 'a writer" where
  "external_call s =
     (case fault s of
        None \<Rightarrow> (OkStatus, s)
      | Some (n, c) \<Rightarrow>
          if n = 0 then (Error c, s\<lparr>fault := None\<rparr>)
          else (OkStatus, s\<lparr>fault := Some (n - 1, c)\<rparr>))"

definition TF_RETURN_IF_ERROR ::
  "status \<times> 'a writer \<Rightarrow> ('a writer \<Rightarrow> status \<times> 'a writer) \<Rightarrow> status \<times> 'a writer" where
  "TF_RETURN_IF_ERROR r k = (case r of (OkStatus, s) \<Rightarrow> k s | (Error c, s) \<Rightarrow> (Error c, s))"

definition TF_ASSIGN_OR_RETURN ::
  "(code + 'b) \<times> 'a writer \<Rightarrow> ('b \<Rightarrow> 'a writer \<Rightarrow> status \<times> 'a writer) \<Rightarrow> status \<times> 'a writer" where
  "TF_ASSIGN_OR_RETURN r k = (case r of (Inr v, s) \<Rightarrow> k v s | (Inl c, s) \<Rightarrow> (Error c, s))"

definition set_files :: "'a file_system \<Rightarrow> 'a writer \<Rightarrow> 'a writer" where
  "set_files fs s = s\<lparr>files := fs, history := history s @ [fs]\<rparr>"

definition children :: "directory \<Rightarrow> 'a file_system \<Rightarrow> string list" where
  "children dir fs = remdups (map snd (filter (\<lambda>p. fst p = dir) (map fst fs)))"

definition file_contents :: "'a file_system \<Rightarrow> path \<Rightarrow> 'a tensor list" where
  "file_contents fs p = (case map_of fs p of None \<Rightarrow> [] | Some ts \<Rightarrow> ts)"

definition RecursivelyCreateDir :: "directory \<Rightarrow> 'a writer \<Rightarrow> status \<times> 'a writer" where
  "RecursivelyCreateDir dir s = external_call s"

definition GetChildren :: "directory \<Rightarrow> 'a writer \<Rightarrow> (code + string list) \<times> 'a writer" where
  "GetChildren dir s =
     (case external_call s of
        (Error c, s1) \<Rightarrow> (Inl c, s1)
      | (OkStatus, s1) \<Rightarrow> (Inr (children dir (files s1)), s1))"

text \<open>Renaming replaces a file that is already at the destination.\<close>

definition RenameFile :: "path \<Rightarrow> path \<Rightarrow> 'a writer \<Rightarrow> status \<times> 'a writer" where
  "RenameFile src target s =
     TF_RETURN_IF_ERROR (external_call s) (\<lambda>s1.
       case map_of (files s1) src of
         None \<Rightarrow> (Error NOT_FOUND, s1)
       | Some ts \<Rightarrow> (OkStatus, set_files (AList.update target ts (AList.delete src (files s1))) s1))"

definition DeleteFile :: "path \<Rightarrow> 'a writer \<Rightarrow> status \<times> 'a writer" where
  "DeleteFile p s =
     TF_RETURN_IF_ERROR (external_call s) (\<lambda>s1.
       case map_of (files s1) p of
         None \<Rightarrow> (Error NOT_FOUND, s1)
       | Some ts \<Rightarrow> (OkStatus, set_files (AList.delete p (files s1)) s1))"

definition LocalTempFilename :: "'a writer \<Rightarrow> path option \<times> 'a writer" where
  "LocalTempFilename s =
     (case external_call s of
        (Error c, s1) \<Rightarrow> (None, s1)
      | (OkStatus, s1) \<Rightarrow> (Some (LocalTempDirectory, ''checkpoint''), s1))"

text \<open>The record writer is represented by the path it was constructed with.\<close>

definition TFRecordWriter_Initialize :: "path \<Rightarrow> 'a writer \<Rightarrow> status \<times> 'a writer" where
  "TFRecordWriter_Initialize p s =
     TF_RETURN_IF_ERROR (external_call s) (\<lambda>s1.
       (OkStatus, set_files (AList.update p [] (files s1)) s1))"

definition TFRecordWriter_WriteTensors ::
  "path \<Rightarrow> 'a tensor list \<Rightarrow> 'a writer \<Rightarrow> status \<times> 'a writer" where
  "TFRecordWriter_WriteTensors p ts s =
     TF_RETURN_IF_ERROR (external_call s) (\<lambda>s1.
       (OkStatus, set_files (AList.update p (file_contents (files s1) p @ ts) (files s1)) s1))"

definition TFRecordWriter_Close :: "path \<Rightarrow> 'a writer \<Rightarrow> status \<times> 'a writer" where
  "TFRecordWriter_Close p s = external_call s"

definition TFRecordReader_Initialize :: "path \<Rightarrow> 'a writer \<Rightarrow> status \<times> 'a writer" where
  "TFRecordReader_Initialize p s =
     TF_RETURN_IF_ERROR (external_call s) (\<lambda>s1.
       case map_of (files s1) p of
         None \<Rightarrow> (Error NOT_FOUND, s1)
       | Some ts \<Rightarrow> (OkStatus, s1))"

text \<open>The reader hands over the stored payload of the file.\<close>

definition TFRecordReader_ReadTensors ::
  "path \<Rightarrow> 'a writer \<Rightarrow> (code + 'a tensor list) \<times> 'a writer" where
  "TFRecordReader_ReadTensors p s =
     (case external_call s of
        (Error c, s1) \<Rightarrow> (Inl c, s1)
      | (OkStatus, s1) \<Rightarrow> (Inr (file_contents (files s1) p), s1))"

text \<open>
  \<^verbatim>\<open>iterator_->GetNext(element, end_of_sequence_)\<close> writes the flag of the object through
  its reference parameter.
\<close>

definition TaskIterator_GetNext :: "'a writer \<Rightarrow> (code + 'a tensor list) \<times> 'a writer" where
  "TaskIterator_GetNext s =
     (case external_call s of
        (Error c, s1) \<Rightarrow> (Inl c, s1)
      | (OkStatus, s1) \<Rightarrow>
          if cursor s1 < length (elements s1)
          then (Inr (elements s1 ! cursor s1), s1\<lparr>end_of_sequence := False, cursor := Suc (cursor s1)\<rparr>)
          else (Inr [], s1\<lparr>end_of_sequence := True\<rparr>))"

definition TaskIterator_Save :: "'a writer \<Rightarrow> (code + 'a tensor) \<times> 'a writer" where
  "TaskIterator_Save s =
     (case external_call s of
        (Error c, s1) \<Rightarrow> (Inl c, s1)
      | (OkStatus, s1) \<Rightarrow> (Inr (Variant (cursor s1)), s1))"

definition TaskIterator_Restore :: "'a tensor \<Rightarrow> 'a writer \<Rightarrow> status \<times> 'a writer" where
  "TaskIterator_Restore t s =
     TF_RETURN_IF_ERROR (external_call s) (\<lambda>s1.
       case t of
         Variant n \<Rightarrow> (OkStatus, s1\<lparr>cursor := n\<rparr>)
       | Data x \<Rightarrow> (Error INVALID_ARGUMENT, s1))"

subsection \<open>The mutex and cancellation\<close>

definition Cancel :: "'a writer \<Rightarrow> 'a writer" where
  "Cancel s = s\<lparr>status := Error CANCELLED\<rparr>"

text \<open>
  The snapshot thread and \<^verbatim>\<open>Wait()\<close> take \<^verbatim>\<open>mu_\<close> through \<open>mutex_lock\<close>. The fields
  that \<^verbatim>\<open>Cancel()\<close> writes are only read or written under the mutex, so a concurrent
  \<^verbatim>\<open>Cancel()\<close> is determined by the acquisition it precedes.
\<close>

definition mutex_lock :: "'a writer \<Rightarrow> 'a writer" where
  "mutex_lock s =
     (case cancel_in s of
        None \<Rightarrow> s
      | Some n \<Rightarrow> if n = 0 then Cancel (s\<lparr>cancel_in := None\<rparr>) else s\<lparr>cancel_in := Some (n - 1)\<rparr>)"

subsection \<open>The member functions\<close>

definition InitializeDirectories :: "'a writer \<Rightarrow> status \<times> 'a writer" where
  "InitializeDirectories s =
     TF_RETURN_IF_ERROR (RecursivelyCreateDir UncommittedChunksDirectory s) (\<lambda>s1.
     TF_RETURN_IF_ERROR (RecursivelyCreateDir CheckpointsDirectory s1) (\<lambda>s2.
       (OkStatus, s2)))"

definition ShouldWriteChunk :: "'a writer \<Rightarrow> bool \<times> 'a writer" where
  "ShouldWriteChunk s =
     (let s1 = mutex_lock s in (\<not> end_of_sequence s1 \<and> ok (status s1), s1))"

definition ShouldWriteRecord :: "'a writer \<Rightarrow> bool \<times> 'a writer" where
  "ShouldWriteRecord s =
     (let s1 = mutex_lock s
      in (chunk_size_bytes s1 < max_chunk_size_bytes s1 \<and> \<not> end_of_sequence s1 \<and> ok (status s1), s1))"

definition ShouldSave :: "'a writer \<Rightarrow> bool \<times> 'a writer" where
  "ShouldSave s =
     (let s1 = mutex_lock s in (\<not> end_of_sequence s1 \<and> ok (status s1), s1))"

definition GetChunkFilePath :: "'a writer \<Rightarrow> path" where
  "GetChunkFilePath s = (UncommittedChunksDirectory, StrCat ''chunk_'' (chunk_index s))"

definition CheckpointPath :: "int \<Rightarrow> path" where
  "CheckpointPath index = (CheckpointsDirectory, StrCat ''checkpoint_'' index)"

definition WriteRecord :: "path \<Rightarrow> 'a writer \<Rightarrow> status \<times> 'a writer" where
  "WriteRecord writer s =
     TF_ASSIGN_OR_RETURN (TaskIterator_GetNext s) (\<lambda>element s1.
       if end_of_sequence s1 then TFRecordWriter_Close writer s1
       else
         TF_RETURN_IF_ERROR (TFRecordWriter_WriteTensors writer element s1) (\<lambda>s2.
           (OkStatus,
            s2\<lparr>chunk_size_bytes := chunk_size_bytes s2 + estimated_size_bytes s2 element\<rparr>)))"

fun DeleteOutdatedCheckpoints_loop :: "string list \<Rightarrow> 'a writer \<Rightarrow> status \<times> 'a writer" where
  "DeleteOutdatedCheckpoints_loop [] s = (OkStatus, s)"
| "DeleteOutdatedCheckpoints_loop (checkpoint_filename # rest) s =
     (case GetFileIndex checkpoint_filename ''checkpoint'' of
        Inl c \<Rightarrow> (Error c, s)
      | Inr checkpoint_index \<Rightarrow>
          if checkpoint_index < chunk_index s
          then (case DeleteFile (CheckpointsDirectory, checkpoint_filename) s of
                  (Error c, s1) \<Rightarrow> (Error c, s1)
                | (OkStatus, s1) \<Rightarrow> DeleteOutdatedCheckpoints_loop rest s1)
          else DeleteOutdatedCheckpoints_loop rest s)"

definition DeleteOutdatedCheckpoints :: "'a writer \<Rightarrow> status \<times> 'a writer" where
  "DeleteOutdatedCheckpoints s =
     TF_ASSIGN_OR_RETURN (GetChildren CheckpointsDirectory s) (\<lambda>checkpoint_filenames s1.
       DeleteOutdatedCheckpoints_loop checkpoint_filenames s1)"

definition Save :: "'a writer \<Rightarrow> status \<times> 'a writer" where
  "Save s =
     (case LocalTempFilename s of
        (None, s1) \<Rightarrow> (Error INTERNAL, s1)
      | (Some uncommitted_checkpoint_path, s1) \<Rightarrow>
          (let committed_checkpoint_path = CheckpointPath (chunk_index s1) in
           TF_RETURN_IF_ERROR (TFRecordWriter_Initialize uncommitted_checkpoint_path s1) (\<lambda>s2.
           TF_ASSIGN_OR_RETURN (TaskIterator_Save s2) (\<lambda>serialized s3.
           TF_RETURN_IF_ERROR (TFRecordWriter_WriteTensors uncommitted_checkpoint_path [serialized] s3) (\<lambda>s4.
           TF_RETURN_IF_ERROR (TFRecordWriter_Close uncommitted_checkpoint_path s4) (\<lambda>s5.
           TF_RETURN_IF_ERROR (RenameFile uncommitted_checkpoint_path committed_checkpoint_path s5) (\<lambda>s6.
             DeleteOutdatedCheckpoints s6)))))))"

definition CommitChunk :: "path \<Rightarrow> 'a writer \<Rightarrow> status \<times> 'a writer" where
  "CommitChunk chunk_file_path s =
     (let chunk_basename = snd chunk_file_path;
          committed_chunk_filename = (CommittedChunksDirectory, chunk_basename)
      in TF_RETURN_IF_ERROR
           (case ShouldSave s of (True, s1) \<Rightarrow> Save s1 | (False, s1) \<Rightarrow> (OkStatus, s1)) (\<lambda>s2.
         TF_RETURN_IF_ERROR (RenameFile chunk_file_path committed_chunk_filename s2) (\<lambda>s3.
           (OkStatus, s3\<lparr>chunk_index := int64_t (chunk_index s3 + 1), chunk_size_bytes := 0\<rparr>))))"

text \<open>The loop \<^verbatim>\<open>while (ShouldWriteRecord()) WriteRecord(writer)\<close> of \<^verbatim>\<open>WriteChunk\<close>.\<close>

function WriteChunk_loop :: "path \<Rightarrow> 'a writer \<Rightarrow> status \<times> 'a writer" where
  "WriteChunk_loop writer s =
     (case ShouldWriteRecord s of
        (False, s1) \<Rightarrow> (OkStatus, s1)
      | (True, s1) \<Rightarrow>
          (case WriteRecord writer s1 of
             (Error c, s2) \<Rightarrow> (Error c, s2)
           | (OkStatus, s2) \<Rightarrow> WriteChunk_loop writer s2))"
  by pat_completeness auto
termination
proof (relation "measure (\<lambda>(writer, s).
         (length (elements s) - cursor s) + (if end_of_sequence s then 0 else 1))", goal_cases)
  case 1
  show ?case by simp
next
  case (2 writer s b s1 r s2)
  then have guard: "ShouldWriteRecord s = (True, s1)"
    and step: "WriteRecord writer s1 = (OkStatus, s2)"
    by simp_all
  from guard have same: "elements s1 = elements s" "cursor s1 = cursor s"
    "\<not> end_of_sequence s1" "\<not> end_of_sequence s"
    by (auto simp: ShouldWriteRecord_def Let_def mutex_lock_def Cancel_def
        split: option.splits if_splits)
  from step same(3) have "elements s2 = elements s1 \<and>
     (if end_of_sequence s2 then cursor s2 = cursor s1
      else cursor s1 < length (elements s1) \<and> cursor s2 = Suc (cursor s1))"
    by (auto simp: WriteRecord_def TF_ASSIGN_OR_RETURN_def TF_RETURN_IF_ERROR_def
        TaskIterator_GetNext_def TFRecordWriter_Close_def TFRecordWriter_WriteTensors_def
        external_call_def set_files_def
        split: prod.splits sum.splits status.splits if_splits option.splits)
  with same show ?case by (auto split: if_splits)
qed

declare WriteChunk_loop.simps [simp del]

definition WriteChunk :: "'a writer \<Rightarrow> status \<times> 'a writer" where
  "WriteChunk s =
     (let chunk_file_path = GetChunkFilePath s;
          writer = chunk_file_path
      in TF_RETURN_IF_ERROR (TFRecordWriter_Initialize writer s) (\<lambda>s1.
         TF_RETURN_IF_ERROR (WriteChunk_loop writer s1) (\<lambda>s2.
         TF_RETURN_IF_ERROR (TFRecordWriter_Close writer s2) (\<lambda>s3.
           CommitChunk chunk_file_path s3))))"

fun LastCheckpointIndex_loop :: "string list \<Rightarrow> int \<Rightarrow> code + int" where
  "LastCheckpointIndex_loop [] last_index = Inr last_index"
| "LastCheckpointIndex_loop (checkpoint_name # rest) last_index =
     (case GetFileIndex checkpoint_name ''checkpoint'' of
        Inl c \<Rightarrow> Inl c
      | Inr checkpoint_index \<Rightarrow> LastCheckpointIndex_loop rest (max last_index checkpoint_index))"

definition LastCheckpointIndex :: "'a writer \<Rightarrow> (code + int) \<times> 'a writer" where
  "LastCheckpointIndex s =
     (case GetChildren CheckpointsDirectory s of
        (Inl c, s1) \<Rightarrow> (Inl c, s1)
      | (Inr checkpoint_names, s1) \<Rightarrow>
          if checkpoint_names = [] then (Inl NOT_FOUND, s1)
          else (LastCheckpointIndex_loop checkpoint_names 0, s1))"

fun SyncCheckpointWithChunks_loop :: "string list \<Rightarrow> int \<Rightarrow> 'a writer \<Rightarrow> status \<times> 'a writer" where
  "SyncCheckpointWithChunks_loop [] checkpoint_index s = (OkStatus, s)"
| "SyncCheckpointWithChunks_loop (uncommitted_chunk # rest) checkpoint_index s =
     (let uncommitted_chunk_filename = (UncommittedChunksDirectory, uncommitted_chunk);
          committed_chunk_filename = (CommittedChunksDirectory, uncommitted_chunk)
      in case GetFileIndex uncommitted_chunk ''chunk'' of
           Inl c \<Rightarrow> (Error c, s)
         | Inr index \<Rightarrow>
             (case (if index \<le> checkpoint_index
                    then RenameFile uncommitted_chunk_filename committed_chunk_filename s
                    else DeleteFile uncommitted_chunk_filename s) of
                (Error c, s1) \<Rightarrow> (Error c, s1)
              | (OkStatus, s1) \<Rightarrow> SyncCheckpointWithChunks_loop rest checkpoint_index s1))"

definition SyncCheckpointWithChunks :: "int \<Rightarrow> 'a writer \<Rightarrow> status \<times> 'a writer" where
  "SyncCheckpointWithChunks checkpoint_index s =
     TF_ASSIGN_OR_RETURN (GetChildren UncommittedChunksDirectory s) (\<lambda>uncommitted_chunks s1.
       SyncCheckpointWithChunks_loop uncommitted_chunks checkpoint_index s1)"

definition Restore :: "'a writer \<Rightarrow> status \<times> 'a writer" where
  "Restore s =
     (case LastCheckpointIndex s of
        (Inl c, s1) \<Rightarrow> if IsNotFound (Error c) then (OkStatus, s1) else (Error c, s1)
      | (Inr checkpoint_index, s1) \<Rightarrow>
          (let checkpoint_path = CheckpointPath checkpoint_index;
               reader = checkpoint_path
           in TF_RETURN_IF_ERROR (TFRecordReader_Initialize reader s1) (\<lambda>s2.
              TF_ASSIGN_OR_RETURN (TFRecordReader_ReadTensors reader s2) (\<lambda>serialized_tensors s3.
                if length serialized_tensors \<noteq> 1 then (Error INTERNAL, s3)
                else
                  TF_RETURN_IF_ERROR (TaskIterator_Restore (serialized_tensors ! 0) s3) (\<lambda>s4.
                  TF_RETURN_IF_ERROR (SyncCheckpointWithChunks checkpoint_index s4) (\<lambda>s5.
                    (OkStatus, s5\<lparr>chunk_index := int64_t (checkpoint_index + 1)\<rparr>)))))))"

partial_function (option) WriteSnapshotFn_loop :: "'a writer \<Rightarrow> (status \<times> 'a writer) option" where
  "WriteSnapshotFn_loop s =
     (case ShouldWriteChunk s of
        (should_write_chunk, s1) \<Rightarrow>
          if should_write_chunk
          then (case WriteChunk s1 of
                  (st, s2) \<Rightarrow> if ok st then WriteSnapshotFn_loop s2 else Some (st, s2))
          else Some (OkStatus, s1))"

declare WriteSnapshotFn_loop.simps [code]

definition WriteSnapshotFn :: "'a writer \<Rightarrow> (status \<times> 'a writer) option" where
  "WriteSnapshotFn s =
     (case InitializeDirectories s of
        (Error c, s1) \<Rightarrow> Some (Error c, s1)
      | (OkStatus, s1) \<Rightarrow>
          (case Restore s1 of
             (Error c, s2) \<Rightarrow> Some (Error c, s2)
           | (OkStatus, s2) \<Rightarrow>
               (case WriteSnapshotFn_loop s2 of
                  None \<Rightarrow> None
                | Some (Error c, s3) \<Rightarrow> Some (Error c, s3)
                | Some (OkStatus, s3) \<Rightarrow> (let s4 = mutex_lock s3 in Some (status s4, s4)))))"

definition snapshot_fn :: "'a writer \<Rightarrow> 'a writer option" where
  "snapshot_fn s =
     (case WriteSnapshotFn s of
        None \<Rightarrow> None
      | Some (st, s1) \<Rightarrow> Some (if \<not> ok st then (mutex_lock s1)\<lparr>status := st\<rparr> else s1))"

definition Wait :: "'a writer \<Rightarrow> (status \<times> 'a writer) option" where
  "Wait s =
     (case (if snapshot_thread s then snapshot_fn s else Some s) of
        None \<Rightarrow> None
      | Some s1 \<Rightarrow> (let s2 = mutex_lock (s1\<lparr>snapshot_thread := False\<rparr>) in Some (status s2, s2)))"

definition SnapshotStreamWriter ::
  "int \<Rightarrow> ('a tensor list \<Rightarrow> int) \<Rightarrow> 'a tensor list list \<Rightarrow> 'a file_system \<Rightarrow> 'a writer" where
  "SnapshotStreamWriter max_size size_of source fs =
     \<lparr>max_chunk_size_bytes = max_size, estimated_size_bytes = size_of,
      chunk_index = 0, chunk_size_bytes = 0, end_of_sequence = False, status = OkStatus,
      snapshot_thread = True, cancel_in = None, elements = source, cursor = 0,
      files = fs, history = [fs], fault = None\<rparr>"

definition committed_chunks :: "'a writer \<Rightarrow> string \<Rightarrow> 'a tensor list option" where
  "committed_chunks s name = map_of (files s) (CommittedChunksDirectory, name)"


subsection \<open>Notions used in the statements\<close>

text \<open>\<open>env_step s s'\<close>: \<open>s'\<close> differs from \<open>s\<close> in the state of the collaborators only.\<close>

definition env_step :: "'a writer \<Rightarrow> 'a writer \<Rightarrow> bool" where
  "env_step s s' \<longleftrightarrow> s' = s\<lparr>files := files s', history := history s', fault := fault s'\<rparr>"

text \<open>The elements that were pulled from the source between two states.\<close>

definition pulled :: "'a writer \<Rightarrow> 'a writer \<Rightarrow> 'a tensor list list" where
  "pulled s s' = take (cursor s' - cursor s) (drop (cursor s) (elements s))"

text \<open>
  \<open>lock_rel s s'\<close>: between \<open>s\<close> and \<open>s'\<close> the status was written by \<^verbatim>\<open>Cancel()\<close> only, and
  only if the cancellation was still pending in \<open>s\<close>.
\<close>

definition lock_rel :: "'a writer \<Rightarrow> 'a writer \<Rightarrow> bool" where
  "lock_rel s s' \<longleftrightarrow>
     (cancel_in s = None \<longrightarrow> cancel_in s' = None \<and> status s' = status s) \<and>
     (cancel_in s' \<noteq> None \<longrightarrow> status s' = status s) \<and>
     (cancel_in s \<noteq> None \<and> cancel_in s' = None \<longrightarrow> status s' = Error CANCELLED)"

text \<open>\<open>quiet s s'\<close>: only the position in the source, the chunk counters and the collaborators differ.\<close>

definition quiet :: "'a writer \<Rightarrow> 'a writer \<Rightarrow> bool" where
  "quiet s s' \<longleftrightarrow> status s' = status s \<and> cancel_in s' = cancel_in s \<and> elements s' = elements s \<and>
     max_chunk_size_bytes s' = max_chunk_size_bytes s \<and> estimated_size_bytes s' = estimated_size_bytes s \<and>
     snapshot_thread s' = snapshot_thread s"

text \<open>
  The number of acquisitions of the mutex up to and including the one that a pending
  \<^verbatim>\<open>Cancel()\<close> precedes.
\<close>

definition locks_left :: "'a writer \<Rightarrow> nat" where
  "locks_left s = (case cancel_in s of None \<Rightarrow> 0 | Some n \<Rightarrow> Suc n)"


subsection \<open>Notions used for the runs without failure\<close>

text \<open>
  The number of elements that the record loop pulls from the remaining elements \<open>es\<close> when
  the byte counter is \<open>z\<close>.
\<close>

fun fill_count :: "int \<Rightarrow> ('e \<Rightarrow> int) \<Rightarrow> 'e list \<Rightarrow> int \<Rightarrow> nat" where
  "fill_count max_size size_of [] z = 0"
| "fill_count max_size size_of (e # es) z =
     (if z < max_size then Suc (fill_count max_size size_of es (z + size_of e)) else 0)"

text \<open>
  \<open>pruned_from j F0 F\<close>: \<open>F\<close> is \<open>F0\<close> without some checkpoints of index below \<open>j\<close>.
\<close>

definition pruned_from :: "int \<Rightarrow> 'a file_system \<Rightarrow> 'a file_system \<Rightarrow> bool" where
  "pruned_from j F0 F \<longleftrightarrow>
     (\<forall>dir name. map_of F (dir, name) = map_of F0 (dir, name) \<or>
        (map_of F (dir, name) = None \<and> dir = CheckpointsDirectory \<and>
         (\<exists>i. GetFileIndex name ''checkpoint'' = Inr i \<and> i < j)))"

text \<open>\<open>tmp_only F0 F\<close>: the two file systems agree outside the temporary directory.\<close>

definition tmp_only :: "'a file_system \<Rightarrow> 'a file_system \<Rightarrow> bool" where
  "tmp_only F0 F \<longleftrightarrow> (\<forall>dir name. dir \<noteq> LocalTempDirectory \<longrightarrow> map_of F (dir, name) = map_of F0 (dir, name))"

text \<open>
  \<open>saved j p F0 F\<close>: \<open>F\<close> holds the checkpoint of index \<open>j\<close> with position \<open>p\<close>, and is otherwise
  \<open>F0\<close> outside the temporary directory, without some checkpoints of index below \<open>j\<close>.
\<close>

definition saved :: "int \<Rightarrow> nat \<Rightarrow> 'a file_system \<Rightarrow> 'a file_system \<Rightarrow> bool" where
  "saved j p F0 F \<longleftrightarrow>
     map_of F (CheckpointPath j) = Some [Variant p] \<and>
     (\<forall>dir name. dir \<noteq> LocalTempDirectory \<longrightarrow> (dir, name) \<noteq> CheckpointPath j \<longrightarrow>
        map_of F (dir, name) = map_of F0 (dir, name) \<or>
        (map_of F (dir, name) = None \<and> dir = CheckpointsDirectory \<and>
         (\<exists>i. GetFileIndex name ''checkpoint'' = Inr i \<and> i < j)))"

text \<open>What the next chunk takes from the source, as a function of the state at the loop head.\<close>

definition chunk_count :: "'a writer \<Rightarrow> nat" where
  "chunk_count s =
     fill_count (max_chunk_size_bytes s) (estimated_size_bytes s) (drop (cursor s) (elements s))
       (chunk_size_bytes s)"

definition chunk_content :: "'a writer \<Rightarrow> 'a tensor list" where
  "chunk_content s = concat (take (chunk_count s) (drop (cursor s) (elements s)))"

definition chunk_exhausts :: "'a writer \<Rightarrow> bool" where
  "chunk_exhausts s \<longleftrightarrow>
     chunk_count s = length (drop (cursor s) (elements s)) \<and>
     chunk_size_bytes s + sum_list (map (estimated_size_bytes s) (drop (cursor s) (elements s)))
       < max_chunk_size_bytes s"

text \<open>Every name of the checkpoints directory parses.\<close>

definition checkpoints_parse :: "'a file_system \<Rightarrow> bool" where
  "checkpoints_parse F \<longleftrightarrow>
     (\<forall>n. map_of F (CheckpointsDirectory, n) \<noteq> None \<longrightarrow>
        (\<exists>i. GetFileIndex n ''checkpoint'' = Inr i))"

text \<open>
  \<open>steady s\<close>: a state at the head of the write loop in a run without failure or
  cancellation, in which the loop goes on, and whose checkpoint names all parse.
\<close>

definition steady :: "'a writer \<Rightarrow> bool" where
  "steady s \<longleftrightarrow>
     fault s = None \<and> cancel_in s = None \<and> status s = OkStatus \<and> \<not> end_of_sequence s \<and>
     chunk_size_bytes s = 0 \<and> 0 \<le> chunk_index s \<and> chunk_index s < kint64max \<and>
     checkpoints_parse (files s)"

text \<open>
  \<open>near j F0 F\<close>: \<open>F\<close> has the checkpoints of \<open>F0\<close>, and its chunks but for the chunk of
  index \<open>j\<close>.
\<close>

definition near :: "int \<Rightarrow> 'a file_system \<Rightarrow> 'a file_system \<Rightarrow> bool" where
  "near j F0 F \<longleftrightarrow>
     (\<forall>n. map_of F (CheckpointsDirectory, n) = map_of F0 (CheckpointsDirectory, n) \<and>
        (n \<noteq> StrCat ''chunk_'' j \<longrightarrow>
           map_of F (UncommittedChunksDirectory, n) = map_of F0 (UncommittedChunksDirectory, n) \<and>
           map_of F (CommittedChunksDirectory, n) = map_of F0 (CommittedChunksDirectory, n)))"

text \<open>
  \<open>after_checkpoint j p c F0 F\<close>: \<open>F\<close> holds the checkpoint of index \<open>j\<close> with position \<open>p\<close>
  and the chunk of index \<open>j\<close> with contents \<open>c\<close>, uncommitted or committed; it may lack
  checkpoints of \<open>F0\<close> of index below \<open>j\<close>; its other chunks are those of \<open>F0\<close>.
\<close>

definition after_checkpoint :: "int \<Rightarrow> nat \<Rightarrow> 'a tensor list \<Rightarrow> 'a file_system \<Rightarrow> 'a file_system \<Rightarrow> bool" where
  "after_checkpoint j p c F0 F \<longleftrightarrow>
     map_of F (CheckpointPath j) = Some [Variant p] \<and>
     (\<forall>n. (CheckpointsDirectory, n) \<noteq> CheckpointPath j \<longrightarrow>
        map_of F (CheckpointsDirectory, n) = map_of F0 (CheckpointsDirectory, n) \<or>
        (map_of F (CheckpointsDirectory, n) = None \<and>
         (\<exists>i. GetFileIndex n ''checkpoint'' = Inr i \<and> i < j))) \<and>
     (\<forall>n. n \<noteq> StrCat ''chunk_'' j \<longrightarrow>
        map_of F (UncommittedChunksDirectory, n) = map_of F0 (UncommittedChunksDirectory, n) \<and>
        map_of F (CommittedChunksDirectory, n) = map_of F0 (CommittedChunksDirectory, n)) \<and>
     (map_of F (UncommittedChunksDirectory, StrCat ''chunk_'' j) = Some c \<and>
      map_of F (CommittedChunksDirectory, StrCat ''chunk_'' j) =
        map_of F0 (CommittedChunksDirectory, StrCat ''chunk_'' j) \<or>
      map_of F (UncommittedChunksDirectory, StrCat ''chunk_'' j) = None \<and>
      map_of F (CommittedChunksDirectory, StrCat ''chunk_'' j) = Some c)"

text \<open>
  \<open>resumes_as s r\<close>: \<open>r\<close> is \<open>s\<close> on another file system, whose committed chunks are those of
  \<open>s\<close> but for the chunk that is written next.
\<close>

definition resumes_as :: "'a writer \<Rightarrow> 'a writer \<Rightarrow> bool" where
  "resumes_as s r \<longleftrightarrow>
     r = s\<lparr>files := files r, history := history r\<rparr> \<and> checkpoints_parse (files r) \<and>
     (\<forall>n. n \<noteq> StrCat ''chunk_'' (chunk_index s) \<longrightarrow>
        map_of (files r) (CommittedChunksDirectory, n) = map_of (files s) (CommittedChunksDirectory, n))"

text \<open>
  \<open>clean s\<close>: a state at the head of the write loop of a run that started on an empty file
  system: no uncommitted chunk is left, and the only checkpoint is the one saved with the
  last committed chunk, which holds the position of the source.
\<close>

definition clean :: "'a writer \<Rightarrow> bool" where
  "clean s \<longleftrightarrow>
     steady s \<and> snapshot_thread s \<and>
     (\<forall>n. map_of (files s) (UncommittedChunksDirectory, n) = None) \<and>
     (if chunk_index s = 0
      then cursor s = 0 \<and> (\<forall>n. map_of (files s) (CheckpointsDirectory, n) = None)
      else map_of (files s) (CheckpointPath (chunk_index s - 1)) = Some [Variant (cursor s)] \<and>
           (\<forall>n. (CheckpointsDirectory, n) \<noteq> CheckpointPath (chunk_index s - 1) \<longrightarrow>
              map_of (files s) (CheckpointsDirectory, n) = None))"

text \<open>The writer restarted on \<open>F\<close> succeeds, with the committed chunks of \<open>fin\<close>.\<close>

definition recovers ::
  "int \<Rightarrow> ('a tensor list \<Rightarrow> int) \<Rightarrow> 'a tensor list list \<Rightarrow> 'a writer \<Rightarrow> 'a file_system \<Rightarrow> bool" where
  "recovers max_size size_of source fin F \<longleftrightarrow>
     (\<exists>resumed. WriteSnapshotFn (SnapshotStreamWriter max_size size_of source F) = Some (OkStatus, resumed) \<and>
        (\<forall>n. map_of (files resumed) (CommittedChunksDirectory, n) =
             map_of (files fin) (CommittedChunksDirectory, n)))"

text \<open>The tensors of the committed chunks of index below \<open>n\<close>, in the order of the indices.\<close>

definition chunk_sequence :: "'a writer \<Rightarrow> nat \<Rightarrow> 'a tensor list" where
  "chunk_sequence s n =
     concat (map (\<lambda>i. file_contents (files s) (CommittedChunksDirectory, StrCat ''chunk_'' (int i))) [0..<n])"

text \<open>
  \<open>committed_prefix s\<close>: the committed chunks are those of index below \<open>chunk_index\<close>, and
  they hold the elements before the position of the source.
\<close>

definition committed_prefix :: "'a writer \<Rightarrow> bool" where
  "committed_prefix s \<longleftrightarrow>
     (\<forall>name. map_of (files s) (CommittedChunksDirectory, name) \<noteq> None \<longleftrightarrow>
        (\<exists>i < nat (chunk_index s). name = StrCat ''chunk_'' (int i))) \<and>
     chunk_sequence s (nat (chunk_index s)) = concat (take (cursor s) (elements s))"

section \<open>Concrete inputs\<close>

definition malformed_example :: "nat writer" where
  "malformed_example =
     SnapshotStreamWriter 2 (\<lambda>e. int (length e)) [[Data 1], [Data 2]]
       [((CheckpointsDirectory, ''checkpoint_abc''), [Variant 0])]"

definition commit_example :: "nat writer" where
  "commit_example =
     (SnapshotStreamWriter 2 (\<lambda>e. int (length e)) [[Data 1], [Data 2], [Data 3]]
        [((UncommittedChunksDirectory, ''chunk_1''), [Data 1, Data 2]),
         ((CheckpointsDirectory, ''checkpoint_0''), [Variant 0])])
     \<lparr>chunk_index := 1, chunk_size_bytes := 2, cursor := 2\<rparr>"

definition save_example :: "nat writer" where
  "save_example =
     (SnapshotStreamWriter 2 (\<lambda>e. int (length e)) [[Data 1], [Data 2], [Data 3]]
        [((CheckpointsDirectory, ''checkpoint_0''), [Variant 0]),
         ((CheckpointsDirectory, ''checkpoint_1''), [Variant 1]),
         ((CheckpointsDirectory, ''checkpoint_7''), [Variant 1])])
     \<lparr>chunk_index := 2, cursor := 2\<rparr>"

definition size_example :: "nat writer" where
  "size_example =
     SnapshotStreamWriter 2 (\<lambda>e. int (length e)) [[Data 1], [Data 2, Data 3], [Data 4]]
       [((UncommittedChunksDirectory, ''chunk_0''), [])]"

definition recovery_example :: "nat writer" where
  "recovery_example =
     SnapshotStreamWriter 2 (\<lambda>e. int (length e)) [[Data 1], [Data 2], [Data 3]]
       [((CheckpointsDirectory, ''checkpoint_5''), [Variant 1]),
        ((UncommittedChunksDirectory, ''chunk_3''), [Data 3]),
        ((UncommittedChunksDirectory, ''chunk_5''), [Data 5]),
        ((UncommittedChunksDirectory, ''chunk_7''), [Data 7])]"

definition latest_example :: "nat writer" where
  "latest_example =
     SnapshotStreamWriter 2 (\<lambda>e. int (length e)) [[Data 1], [Data 2], [Data 3]]
       [((CheckpointsDirectory, ''checkpoint_2''), [Variant 1]),
        ((CheckpointsDirectory, ''checkpoint_10''), [Variant 2]),
        ((CheckpointsDirectory, ''checkpoint_9''), [Variant 2])]"

definition first_run_example :: "nat writer" where
  "first_run_example =
     SnapshotStreamWriter 2 (\<lambda>e. int (length e)) [[Data 1], [Data 2], [Data 3]] []"

definition malformed_payload_example :: "nat writer" where
  "malformed_payload_example =
     SnapshotStreamWriter 2 (\<lambda>e. int (length e)) [[Data 1], [Data 2], [Data 3]]
       [((CheckpointsDirectory, ''checkpoint_1''), [Variant 1, Variant 2]),
        ((UncommittedChunksDirectory, ''chunk_1''), [Data 1])]"

definition cancel_example :: "nat writer" where
  "cancel_example =
     (SnapshotStreamWriter 2 (\<lambda>e. int (length e)) [[Data 1], [Data 2], [Data 3], [Data 4], [Data 5]] [])
     \<lparr>cancel_in := Some 2\<rparr>"

definition cancel_then_failure_example :: "nat writer" where
  "cancel_then_failure_example = cancel_example\<lparr>fault := Some (7, UNAVAILABLE)\<rparr>"

definition failure_then_cancel_example :: "nat writer" where
  "failure_then_cancel_example =
     (SnapshotStreamWriter 2 (\<lambda>e. int (length e)) [[Data 1], [Data 2], [Data 3]] [])
     \<lparr>cancel_in := Some 1, fault := Some (0, UNAVAILABLE)\<rparr>"

definition cancel_endless_example :: "nat writer" where
  "cancel_endless_example =
     (SnapshotStreamWriter 0 (\<lambda>e. int (length e)) [[Data 1], [Data 2], [Data 3]] [])
     \<lparr>cancel_in := Some 5\<rparr>"

definition commit_overflow_example :: "nat writer" where
  "commit_overflow_example =
     (SnapshotStreamWriter 2 (\<lambda>e. int (length e)) [[Data 1]]
        [((CheckpointsDirectory, ''checkpoint_9223372036854775806''), [Variant 0]),
         ((UncommittedChunksDirectory, ''chunk_9223372036854775807''), [Data 1])])
     \<lparr>chunk_index := 9223372036854775807, chunk_size_bytes := 1, end_of_sequence := True\<rparr>"

definition restore_overflow_example :: "nat writer" where
  "restore_overflow_example =
     SnapshotStreamWriter 2 (\<lambda>e. int (length e)) [[Data 1], [Data 2], [Data 3]]
       [((CheckpointsDirectory, ''checkpoint_9223372036854775807''), [Variant 1])]"

definition crash_example :: "nat file_system \<Rightarrow> nat writer" where
  "crash_example F = SnapshotStreamWriter 2 (\<lambda>e. int (length e)) [[Data 1], [Data 2], [Data 3]] F"

definition crash_state_example :: "nat file_system" where
  "crash_state_example =
     [((UncommittedChunksDirectory, ''chunk_0''), [Data 1, Data 2]),
      ((CheckpointsDirectory, ''checkpoint_0''), [Variant 2])]"

definition crash_later_example :: "nat file_system" where
  "crash_later_example =
     [((CheckpointsDirectory, ''checkpoint_0''), [Variant 2]),
      ((CommittedChunksDirectory, ''chunk_0''), [Data 1, Data 2]),
      ((UncommittedChunksDirectory, ''chunk_1''), [Data 3])]"

section \<open>Properties\<close>

subsection \<open>Arithmetic of indices\<close>

lemma int64_t_id: "- kint64max - 1 \<le> x \<Longrightarrow> x \<le> kint64max \<Longrightarrow> int64_t x = x"
  by (simp add: int64_t_def kint64max_def mod_pos_pos_trivial)

lemma int64_t_range: "- kint64max - 1 \<le> int64_t x \<and> int64_t x \<le> kint64max"
proof -
  have "0 \<le> (x + 9223372036854775808) mod 18446744073709551616"
    "(x + 9223372036854775808) mod 18446744073709551616 < 18446744073709551616"
    by simp_all
  then show ?thesis by (simp add: int64_t_def kint64max_def)
qed

subsection \<open>Decimal names\<close>

lemma digit_char_table:
  "list_all (\<lambda>d. is_digit (digit_char d) \<and> digit_value (digit_char d) = d) [0, 1, 2, 3, 4, 5, 6, 7, 8, 9]"
  by code_simp

lemma digit_char_props:
  assumes "0 \<le> d" "d < 10"
  shows "is_digit (digit_char d)" and "digit_value (digit_char d) = d"
proof -
  from assms have "d \<in> set [0, 1, 2, 3, 4, 5, 6, 7, 8, 9]"
    by simp arith
  with digit_char_table show "is_digit (digit_char d)" and "digit_value (digit_char d) = d"
    unfolding list_all_iff by blast+
qed

lemma digit_value_nonneg: "is_digit c \<Longrightarrow> 0 \<le> digit_value c"
proof -
  have "list_all (\<lambda>c. 0 \<le> digit_value c) ''0123456789''" by code_simp
  then show "is_digit c \<Longrightarrow> 0 \<le> digit_value c"
    unfolding list_all_iff is_digit_def by blast
qed

lemma decimal_value_snoc: "decimal_value (ds @ [c]) = 10 * decimal_value ds + digit_value c"
  by (simp add: decimal_value_def)

lemma decimal_digits: "0 \<le> n \<Longrightarrow> list_all is_digit (decimal n) \<and> decimal n \<noteq> []"
proof (induction n rule: decimal.induct)
  case (1 n)
  show ?case
  proof (cases "n < 10")
    case True
    with 1(2) show ?thesis by (simp add: decimal.simps[of n] digit_char_props)
  next
    case False
    then have "0 \<le> n div 10" by simp
    with 1(1) False have "list_all is_digit (decimal (n div 10))" by simp
    moreover have "is_digit (digit_char (n mod 10))"
      by (rule digit_char_props) simp_all
    ultimately show ?thesis using False by (simp add: decimal.simps[of n])
  qed
qed

lemma decimal_value_decimal: "0 \<le> n \<Longrightarrow> decimal_value (decimal n) = n"
proof (induction n rule: decimal.induct)
  case (1 n)
  show ?case
  proof (cases "n < 10")
    case True
    with 1(2) show ?thesis
      by (simp add: decimal.simps[of n] decimal_value_def digit_char_props)
  next
    case False
    then have "0 \<le> n div 10" by simp
    with 1(1) False have "decimal_value (decimal (n div 10)) = n div 10" by simp
    moreover have "digit_value (digit_char (n mod 10)) = n mod 10"
      by (rule digit_char_props) simp_all
    ultimately show ?thesis using False
      by (simp add: decimal.simps[of n] decimal_value_snoc)
  qed
qed

lemma not_digit_underscore: "\<not> is_digit CHR ''_''"
  by (simp add: is_digit_def)

lemma ends_with_append: "ends_with (xs @ ys) ys"
  by (simp add: ends_with_def)

lemma takeWhile_until: "list_all P xs \<Longrightarrow> \<not> P y \<Longrightarrow> takeWhile P (xs @ y # zs) = xs"
  by (induction xs) auto

lemma dropWhile_until: "list_all P xs \<Longrightarrow> \<not> P y \<Longrightarrow> dropWhile P (xs @ y # zs) = y # zs"
  by (induction xs) auto

lemma trailing_digits:
  assumes "list_all is_digit ds"
  shows "takeWhile is_digit (rev (stem @ CHR ''_'' # ds)) = rev ds"
    and "dropWhile is_digit (rev (stem @ CHR ''_'' # ds)) = CHR ''_'' # rev stem"
  using assms takeWhile_until[of is_digit "rev ds" "CHR ''_''" "rev stem"]
    dropWhile_until[of is_digit "rev ds" "CHR ''_''" "rev stem"]
  by (simp_all add: not_digit_underscore)

lemma GetFileIndex_suffix:
  assumes "list_all is_digit ds" "ds \<noteq> []"
  shows "GetFileIndex (stem @ prefix @ ''_'' @ ds) prefix =
           (if decimal_value ds \<le> kint64max then Inr (decimal_value ds) else Inl INTERNAL)"
proof -
  have "stem @ prefix @ ''_'' @ ds = (stem @ prefix) @ CHR ''_'' # ds" by simp
  then show ?thesis
    using trailing_digits[OF assms(1), of "stem @ prefix"] assms(2)
    by (simp add: GetFileIndex_def Let_def ends_with_def)
qed

lemma GetFileIndex_StrCat:
  assumes "0 \<le> i" "i \<le> kint64max"
  shows "GetFileIndex (StrCat (prefix @ ''_'') i) prefix = Inr i"
  using GetFileIndex_suffix[of "decimal i" "[]" prefix] decimal_digits[OF assms(1)]
    decimal_value_decimal[OF assms(1)] assms
  by (simp add: StrCat_def)

lemma GetFileIndex_Inr:
  assumes "GetFileIndex filename prefix = Inr i"
  shows "0 \<le> i \<and> i \<le> kint64max \<and>
    (\<exists>stem ds. filename = stem @ prefix @ ''_'' @ ds \<and> ds \<noteq> [] \<and> list_all is_digit ds \<and> decimal_value ds = i)"
proof -
  define digits where "digits = rev (takeWhile is_digit (rev filename))"
  define stem where "stem = rev (dropWhile is_digit (rev filename))"
  from assms have c: "digits \<noteq> []" "ends_with stem (prefix @ ''_'')"
    "decimal_value digits \<le> kint64max" "decimal_value digits = i"
    by (auto simp: GetFileIndex_def Let_def digits_def stem_def split: if_splits)
  have f: "filename = stem @ digits"
    unfolding digits_def stem_def
    by (metis rev_append rev_rev_ident takeWhile_dropWhile_id)
  have d: "list_all is_digit digits"
    unfolding digits_def by (simp add: list_all_iff) (meson set_takeWhileD)
  from c(2) obtain st where s: "stem = st @ prefix @ ''_''"
    unfolding ends_with_def by (metis append_take_drop_id)
  have nonneg: "list_all is_digit xs \<Longrightarrow> 0 \<le> decimal_value xs" for xs
  proof (induction xs rule: rev_induct)
    case Nil
    then show ?case by (simp add: decimal_value_def)
  next
    case (snoc x xs)
    then have "0 \<le> digit_value x" by (simp add: digit_value_nonneg)
    with snoc show ?case by (simp add: decimal_value_snoc)
  qed
  from f s c d nonneg[OF d] show ?thesis by auto
qed


lemma GetFileIndex_Inl: "GetFileIndex filename prefix = Inl c \<Longrightarrow> c = INTERNAL"
  by (auto simp: GetFileIndex_def Let_def split: if_splits)

lemma GetFileIndex_no_suffix:
  assumes "\<nexists>stem ds. filename = stem @ prefix @ ''_'' @ ds \<and> ds \<noteq> [] \<and> list_all is_digit ds"
  shows "GetFileIndex filename prefix = Inl INTERNAL"
proof (cases "GetFileIndex filename prefix")
  case (Inl c)
  then show ?thesis using GetFileIndex_Inl by blast
next
  case (Inr i)
  from GetFileIndex_Inr[OF this] assms show ?thesis by blast
qed

lemma matches_prefix_digits_iff:
  "matches_prefix_digits filename prefix \<longleftrightarrow>
     (\<exists>ds. filename = prefix @ ''_'' @ ds \<and> ds \<noteq> [] \<and> list_all is_digit ds)"
proof
  assume m: "matches_prefix_digits filename prefix"
  have "filename = take (length prefix + 1) filename @ drop (length prefix + 1) filename"
    by simp
  with m have "filename = prefix @ ''_'' @ drop (length prefix + 1) filename"
    unfolding matches_prefix_digits_def Let_def by (metis append.assoc)
  with m show "\<exists>ds. filename = prefix @ ''_'' @ ds \<and> ds \<noteq> [] \<and> list_all is_digit ds"
    unfolding matches_prefix_digits_def Let_def by blast
next
  assume "\<exists>ds. filename = prefix @ ''_'' @ ds \<and> ds \<noteq> [] \<and> list_all is_digit ds"
  then show "matches_prefix_digits filename prefix"
    unfolding matches_prefix_digits_def Let_def by auto
qed

lemma GetFileIndex_matches:
  assumes "matches_prefix_digits filename prefix"
  shows "GetFileIndex filename prefix =
     (let n = decimal_value (drop (length prefix + 1) filename)
      in if n \<le> kint64max then Inr n else Inl INTERNAL)"
proof -
  from assms obtain ds where ds: "filename = prefix @ ''_'' @ ds" "ds \<noteq> []" "list_all is_digit ds"
    unfolding matches_prefix_digits_iff by blast
  have "drop (length prefix + 1) filename = ds" using ds(1) by simp
  with GetFileIndex_suffix[OF ds(3) ds(2), of "[]" prefix] ds(1) show ?thesis
    by (simp add: Let_def)
qed

lemma external_call_no_fault [simp]: "fault s = None \<Longrightarrow> external_call s = (OkStatus, s)"
  by (simp add: external_call_def)

lemma LastCheckpointIndex_loop_malformed:
  "name \<in> set names \<Longrightarrow> GetFileIndex name ''checkpoint'' = Inl c \<Longrightarrow>
     LastCheckpointIndex_loop names last_index = Inl INTERNAL"
proof (induction names arbitrary: last_index)
  case Nil
  then show ?case by simp
next
  case (Cons n names)
  show ?case
  proof (cases "GetFileIndex n ''checkpoint''")
    case (Inl e)
    then show ?thesis using GetFileIndex_Inl[OF Inl] by simp
  next
    case (Inr i)
    with Cons show ?thesis by auto
  qed
qed

lemma WriteSnapshotFn_malformed_checkpoint:
  assumes "fault s = None" "name \<in> set (children CheckpointsDirectory (files s))"
    "GetFileIndex name ''checkpoint'' = Inl c"
  shows "WriteSnapshotFn s = Some (Error INTERNAL, s)"
proof -
  have a: "InitializeDirectories s = (OkStatus, s)"
    using assms(1) by (simp add: InitializeDirectories_def RecursivelyCreateDir_def TF_RETURN_IF_ERROR_def)
  have "children CheckpointsDirectory (files s) \<noteq> []" using assms(2) by auto
  then have b: "LastCheckpointIndex s = (Inl INTERNAL, s)"
    using assms LastCheckpointIndex_loop_malformed[OF assms(2,3)]
    by (simp add: LastCheckpointIndex_def GetChildren_def)
  then have "Restore s = (Error INTERNAL, s)" by (simp add: Restore_def)
  with a show ?thesis by (simp add: WriteSnapshotFn_def)
qed

subsection \<open>Calls that only touch the collaborators\<close>

lemma env_step_iff:
  "env_step s s' \<longleftrightarrow>
     chunk_index s' = chunk_index s \<and> chunk_size_bytes s' = chunk_size_bytes s \<and>
     end_of_sequence s' = end_of_sequence s \<and> status s' = status s \<and>
     cursor s' = cursor s \<and> elements s' = elements s \<and> cancel_in s' = cancel_in s \<and>
     max_chunk_size_bytes s' = max_chunk_size_bytes s \<and>
     estimated_size_bytes s' = estimated_size_bytes s \<and> snapshot_thread s' = snapshot_thread s"
  by (cases s, cases s') (auto simp: env_step_def)

lemma env_step_refl [simp]: "env_step s s"
  by (simp add: env_step_def)

lemma env_step_trans: "env_step s s1 \<Longrightarrow> env_step s1 s2 \<Longrightarrow> env_step s s2"
  by (simp add: env_step_iff)

lemma external_call_cases:
  assumes "external_call s = (st, s')"
  shows "env_step s s' \<and> files s' = files s \<and> history s' = history s"
  using assms by (auto simp: external_call_def env_step_def split: option.splits if_splits)


lemma set_files_simps [simp]:
  "files (set_files fs s) = fs" "history (set_files fs s) = history s @ [fs]"
  "fault (set_files fs s) = fault s" "env_step s (set_files fs s)"
  by (simp_all add: set_files_def env_step_iff)

lemma set_files_fields [simp]:
  "chunk_index (set_files fs s) = chunk_index s" "chunk_size_bytes (set_files fs s) = chunk_size_bytes s"
  "end_of_sequence (set_files fs s) = end_of_sequence s" "status (set_files fs s) = status s"
  "cursor (set_files fs s) = cursor s" "elements (set_files fs s) = elements s"
  "cancel_in (set_files fs s) = cancel_in s"
  "max_chunk_size_bytes (set_files fs s) = max_chunk_size_bytes s"
  "estimated_size_bytes (set_files fs s) = estimated_size_bytes s"
  "snapshot_thread (set_files fs s) = snapshot_thread s"
  by (simp_all add: set_files_def)

lemma RecursivelyCreateDir_cases:
  assumes "RecursivelyCreateDir dir s = (st, s')"
  shows "env_step s s' \<and> files s' = files s \<and> history s' = history s"
  using assms external_call_cases unfolding RecursivelyCreateDir_def by blast

lemma TFRecordWriter_Close_cases:
  assumes "TFRecordWriter_Close p s = (st, s')"
  shows "env_step s s' \<and> files s' = files s \<and> history s' = history s"
  using assms external_call_cases unfolding TFRecordWriter_Close_def by blast

lemma GetChildren_cases:
  assumes "GetChildren dir s = (r, s')"
  shows "env_step s s' \<and> files s' = files s \<and> history s' = history s \<and>
    (\<forall>names. r = Inr names \<longrightarrow> names = children dir (files s))"
proof (cases "external_call s")
  case (Pair st s1)
  with assms external_call_cases[OF Pair] show ?thesis
    by (cases st) (auto simp: GetChildren_def)
qed

lemma RenameFile_cases:
  assumes "RenameFile src target s = (st, s')"
  shows "env_step s s'"
    and "st = OkStatus \<Longrightarrow> \<exists>ts. map_of (files s) src = Some ts \<and>
           files s' = AList.update target ts (AList.delete src (files s)) \<and>
           history s' = history s @ [files s']"
    and "st \<noteq> OkStatus \<Longrightarrow> files s' = files s \<and> history s' = history s"
proof -
  obtain st1 s1 where e: "external_call s = (st1, s1)" by (cases "external_call s")
  note c = external_call_cases[OF e]
  from assms e c show "env_step s s'"
    by (cases st1) (auto simp: RenameFile_def TF_RETURN_IF_ERROR_def env_step_iff split: option.splits)
  from assms e c show "st = OkStatus \<Longrightarrow> \<exists>ts. map_of (files s) src = Some ts \<and>
           files s' = AList.update target ts (AList.delete src (files s)) \<and>
           history s' = history s @ [files s']"
    by (cases st1) (auto simp: RenameFile_def TF_RETURN_IF_ERROR_def split: option.splits)
  from assms e c show "st \<noteq> OkStatus \<Longrightarrow> files s' = files s \<and> history s' = history s"
    by (cases st1) (auto simp: RenameFile_def TF_RETURN_IF_ERROR_def split: option.splits)
qed

lemma DeleteFile_cases:
  assumes "DeleteFile p s = (st, s')"
  shows "env_step s s'"
    and "st = OkStatus \<Longrightarrow> map_of (files s) p \<noteq> None \<and>
           files s' = AList.delete p (files s) \<and> history s' = history s @ [files s']"
    and "st \<noteq> OkStatus \<Longrightarrow> files s' = files s \<and> history s' = history s"
proof -
  obtain st1 s1 where e: "external_call s = (st1, s1)" by (cases "external_call s")
  note c = external_call_cases[OF e]
  from assms e c show "env_step s s'"
    by (cases st1) (auto simp: DeleteFile_def TF_RETURN_IF_ERROR_def env_step_iff split: option.splits)
  from assms e c show "st = OkStatus \<Longrightarrow> map_of (files s) p \<noteq> None \<and>
           files s' = AList.delete p (files s) \<and> history s' = history s @ [files s']"
    by (cases st1) (auto simp: DeleteFile_def TF_RETURN_IF_ERROR_def split: option.splits)
  from assms e c show "st \<noteq> OkStatus \<Longrightarrow> files s' = files s \<and> history s' = history s"
    by (cases st1) (auto simp: DeleteFile_def TF_RETURN_IF_ERROR_def split: option.splits)
qed

lemma TFRecordWriter_Initialize_cases:
  assumes "TFRecordWriter_Initialize p s = (st, s')"
  shows "env_step s s'"
    and "st = OkStatus \<Longrightarrow> files s' = AList.update p [] (files s) \<and> history s' = history s @ [files s']"
    and "st \<noteq> OkStatus \<Longrightarrow> files s' = files s \<and> history s' = history s"
proof -
  obtain st1 s1 where e: "external_call s = (st1, s1)" by (cases "external_call s")
  note c = external_call_cases[OF e]
  from assms e c show "env_step s s'"
    by (cases st1) (auto simp: TFRecordWriter_Initialize_def TF_RETURN_IF_ERROR_def env_step_iff)
  from assms e c show "st = OkStatus \<Longrightarrow> files s' = AList.update p [] (files s) \<and> history s' = history s @ [files s']"
    by (cases st1) (auto simp: TFRecordWriter_Initialize_def TF_RETURN_IF_ERROR_def)
  from assms e c show "st \<noteq> OkStatus \<Longrightarrow> files s' = files s \<and> history s' = history s"
    by (cases st1) (auto simp: TFRecordWriter_Initialize_def TF_RETURN_IF_ERROR_def)
qed

lemma TFRecordWriter_WriteTensors_cases:
  assumes "TFRecordWriter_WriteTensors p ts s = (st, s')"
  shows "env_step s s'"
    and "st = OkStatus \<Longrightarrow> files s' = AList.update p (file_contents (files s) p @ ts) (files s) \<and>
           history s' = history s @ [files s']"
    and "st \<noteq> OkStatus \<Longrightarrow> files s' = files s \<and> history s' = history s"
proof -
  obtain st1 s1 where e: "external_call s = (st1, s1)" by (cases "external_call s")
  note c = external_call_cases[OF e]
  from assms e c show "env_step s s'"
    by (cases st1) (auto simp: TFRecordWriter_WriteTensors_def TF_RETURN_IF_ERROR_def env_step_iff)
  from assms e c show "st = OkStatus \<Longrightarrow> files s' = AList.update p (file_contents (files s) p @ ts) (files s) \<and>
           history s' = history s @ [files s']"
    by (cases st1) (auto simp: TFRecordWriter_WriteTensors_def TF_RETURN_IF_ERROR_def)
  from assms e c show "st \<noteq> OkStatus \<Longrightarrow> files s' = files s \<and> history s' = history s"
    by (cases st1) (auto simp: TFRecordWriter_WriteTensors_def TF_RETURN_IF_ERROR_def)
qed

lemma TFRecordReader_Initialize_cases:
  assumes "TFRecordReader_Initialize p s = (st, s')"
  shows "env_step s s' \<and> files s' = files s \<and> history s' = history s"
    and "st = OkStatus \<Longrightarrow> map_of (files s) p \<noteq> None"
proof -
  obtain st1 s1 where e: "external_call s = (st1, s1)" by (cases "external_call s")
  note c = external_call_cases[OF e]
  from assms e c show "env_step s s' \<and> files s' = files s \<and> history s' = history s"
    by (cases st1) (auto simp: TFRecordReader_Initialize_def TF_RETURN_IF_ERROR_def split: option.splits)
  from assms e c show "st = OkStatus \<Longrightarrow> map_of (files s) p \<noteq> None"
    by (cases st1) (auto simp: TFRecordReader_Initialize_def TF_RETURN_IF_ERROR_def split: option.splits)
qed

lemma TFRecordReader_ReadTensors_cases:
  assumes "TFRecordReader_ReadTensors p s = (r, s')"
  shows "env_step s s' \<and> files s' = files s \<and> history s' = history s \<and>
    (\<forall>ts. r = Inr ts \<longrightarrow> ts = file_contents (files s) p)"
proof (cases "external_call s")
  case (Pair st s1)
  with assms external_call_cases[OF Pair] show ?thesis
    by (cases st) (auto simp: TFRecordReader_ReadTensors_def)
qed

lemma TaskIterator_Save_cases:
  assumes "TaskIterator_Save s = (r, s')"
  shows "env_step s s' \<and> files s' = files s \<and> history s' = history s \<and>
    (\<forall>t. r = Inr t \<longrightarrow> t = Variant (cursor s))"
proof (cases "external_call s")
  case (Pair st s1)
  with assms external_call_cases[OF Pair] show ?thesis
    by (cases st) (auto simp: TaskIterator_Save_def env_step_iff)
qed

lemma LocalTempFilename_cases:
  assumes "LocalTempFilename s = (r, s')"
  shows "env_step s s' \<and> files s' = files s \<and> history s' = history s \<and>
    (\<forall>p. r = Some p \<longrightarrow> fst p = LocalTempDirectory)"
proof (cases "external_call s")
  case (Pair st s1)
  with assms external_call_cases[OF Pair] show ?thesis
    by (cases st) (auto simp: LocalTempFilename_def)
qed


subsection \<open>Directories as maps\<close>

lemma children_iff: "name \<in> set (children dir fs) \<longleftrightarrow> map_of fs (dir, name) \<noteq> None"
proof -
  have "map_of fs (dir, name) \<noteq> None \<longleftrightarrow> (dir, name) \<in> fst ` set fs"
    by (simp add: map_of_eq_None_iff)
  also have "\<dots> \<longleftrightarrow> name \<in> set (children dir fs)"
    by (force simp: children_def)
  finally show ?thesis by simp
qed

lemma distinct_children [simp]: "distinct (children dir fs)"
  by (simp add: children_def)

lemma map_of_update: "map_of (AList.update k v al) = (map_of al)(k \<mapsto> v)"
  by (rule update_conv')

lemma map_of_delete: "map_of (AList.delete k al) = (map_of al)(k := None)"
  by (rule delete_conv')

lemma file_contents_update [simp]: "file_contents (AList.update p ts fs) p = ts"
  by (simp add: file_contents_def map_of_update)

subsection \<open>Pruning checkpoints\<close>

lemma DeleteOutdatedCheckpoints_loop_cases:
  assumes "DeleteOutdatedCheckpoints_loop names s = (st, s')"
  shows "env_step s s'"
    and "\<forall>p. map_of (files s') p = map_of (files s) p \<or>
           (map_of (files s') p = None \<and> fst p = CheckpointsDirectory \<and> snd p \<in> set names \<and>
            (\<exists>i. GetFileIndex (snd p) ''checkpoint'' = Inr i \<and> i < chunk_index s))"
    and "st = OkStatus \<Longrightarrow> \<forall>n \<in> set names. \<exists>i. GetFileIndex n ''checkpoint'' = Inr i \<and>
           (i < chunk_index s \<longrightarrow> map_of (files s') (CheckpointsDirectory, n) = None)"
  using assms
proof (induction names arbitrary: s)
  case Nil
  { case 1 then show ?case by simp }
  { case 2 then show ?case by simp }
  { case 3 then show ?case by simp }
next
  case (Cons name names)
  {
    case 1
    show ?case
    proof (cases "GetFileIndex name ''checkpoint''")
      case (Inl c)
      with 1 show ?thesis by simp
    next
      case (Inr i)
      show ?thesis
      proof (cases "i < chunk_index s")
        case False
        with 1 Inr Cons.IH(1)[of s] show ?thesis by simp
      next
        case True
        obtain st1 s1 where d: "DeleteFile (CheckpointsDirectory, name) s = (st1, s1)"
          by (cases "DeleteFile (CheckpointsDirectory, name) s")
        note dc = DeleteFile_cases[OF d]
        show ?thesis
        proof (cases st1)
          case OkStatus
          with 1 Inr True d have "DeleteOutdatedCheckpoints_loop names s1 = (st, s')" by simp
          from Cons.IH(1)[OF this] dc(1) show ?thesis by (rule env_step_trans[rotated])
        next
          case (Error c)
          with 1 Inr True d dc(1) show ?thesis by simp
        qed
      qed
    qed
  }
  {
    case 2
    show ?case
    proof (cases "GetFileIndex name ''checkpoint''")
      case (Inl c)
      with 2 show ?thesis by simp
    next
      case (Inr i)
      show ?thesis
      proof (cases "i < chunk_index s")
        case False
        with 2 Inr have "DeleteOutdatedCheckpoints_loop names s = (st, s')" by simp
        from Cons.IH(2)[OF this] show ?thesis by auto
      next
        case True
        obtain st1 s1 where d: "DeleteFile (CheckpointsDirectory, name) s = (st1, s1)"
          by (cases "DeleteFile (CheckpointsDirectory, name) s")
        note dc = DeleteFile_cases[OF d]
        show ?thesis
        proof (cases st1)
          case OkStatus
          with 2 Inr True d have l: "DeleteOutdatedCheckpoints_loop names s1 = (st, s')" by simp
          have ci: "chunk_index s1 = chunk_index s" using dc(1) by (simp add: env_step_iff)
          have f1: "map_of (files s1) = (map_of (files s))((CheckpointsDirectory, name) := None)"
            using dc(2) OkStatus by (simp add: map_of_delete)
          show ?thesis
          proof
            fix p
            from Cons.IH(2)[OF l, THEN spec, of p] ci
            have "map_of (files s') p = map_of (files s1) p \<or>
              (map_of (files s') p = None \<and> fst p = CheckpointsDirectory \<and> snd p \<in> set names \<and>
               (\<exists>i. GetFileIndex (snd p) ''checkpoint'' = Inr i \<and> i < chunk_index s))"
              by simp
            with f1 Inr True show "map_of (files s') p = map_of (files s) p \<or>
              (map_of (files s') p = None \<and> fst p = CheckpointsDirectory \<and> snd p \<in> set (name # names) \<and>
               (\<exists>i. GetFileIndex (snd p) ''checkpoint'' = Inr i \<and> i < chunk_index s))"
              by (cases "p = (CheckpointsDirectory, name)") auto
          qed
        next
          case (Error c)
          with 2 Inr True d dc(3) show ?thesis by auto
        qed
      qed
    qed
  }
  {
    case 3
    show ?case
    proof (cases "GetFileIndex name ''checkpoint''")
      case (Inl c)
      with 3 show ?thesis by simp
    next
      case (Inr i)
      show ?thesis
      proof (cases "i < chunk_index s")
        case False
        with 3 Inr have "DeleteOutdatedCheckpoints_loop names s = (st, s')" by simp
        from Cons.IH(3)[OF 3(1) this] Inr False show ?thesis by simp
      next
        case True
        obtain st1 s1 where d: "DeleteFile (CheckpointsDirectory, name) s = (st1, s1)"
          by (cases "DeleteFile (CheckpointsDirectory, name) s")
        note dc = DeleteFile_cases[OF d]
        show ?thesis
        proof (cases st1)
          case OkStatus
          with 3 Inr True d have l: "DeleteOutdatedCheckpoints_loop names s1 = (st, s')" by simp
          have ci: "chunk_index s1 = chunk_index s" using dc(1) by (simp add: env_step_iff)
          have f1: "map_of (files s1) (CheckpointsDirectory, name) = None"
            using dc(2) OkStatus by (simp add: map_of_delete)
          from Cons.IH(2)[OF l, THEN spec, of "(CheckpointsDirectory, name)"] f1
          have "map_of (files s') (CheckpointsDirectory, name) = None"
            by auto
          with Cons.IH(3)[OF 3(1) l] ci Inr show ?thesis by simp
        next
          case (Error c)
          with 3 Inr True d show ?thesis by simp
        qed
      qed
    qed
  }
qed


lemma TF_RETURN_IF_ERROR_E:
  assumes "TF_RETURN_IF_ERROR r k = (st, s')"
  obtains (failed) c where "r = (Error c, s')" "st = Error c"
  | (passed) s1 where "r = (OkStatus, s1)" "k s1 = (st, s')"
proof (cases r)
  case (Pair st1 s1)
  with assms show ?thesis
    by (cases st1) (auto simp: TF_RETURN_IF_ERROR_def intro: failed passed)
qed

lemma TF_ASSIGN_OR_RETURN_E:
  assumes "TF_ASSIGN_OR_RETURN r k = (st, s')"
  obtains (failed) c where "r = (Inl c, s')" "st = Error c"
  | (passed) v s1 where "r = (Inr v, s1)" "k v s1 = (st, s')"
proof (cases r)
  case (Pair r1 s1)
  with assms show ?thesis
    by (cases r1) (auto simp: TF_ASSIGN_OR_RETURN_def intro: failed passed)
qed

lemma DeleteOutdatedCheckpoints_cases:
  assumes "DeleteOutdatedCheckpoints s = (st, s')"
  shows "env_step s s'"
    and "\<forall>p. map_of (files s') p = map_of (files s) p \<or>
           (map_of (files s') p = None \<and> fst p = CheckpointsDirectory \<and>
            (\<exists>i. GetFileIndex (snd p) ''checkpoint'' = Inr i \<and> i < chunk_index s))"
    and "st = OkStatus \<Longrightarrow> \<forall>n i. map_of (files s') (CheckpointsDirectory, n) \<noteq> None \<longrightarrow>
           GetFileIndex n ''checkpoint'' = Inr i \<longrightarrow> chunk_index s \<le> i"
proof -
  from assms have "TF_ASSIGN_OR_RETURN (GetChildren CheckpointsDirectory s)
      (\<lambda>checkpoint_filenames s1. DeleteOutdatedCheckpoints_loop checkpoint_filenames s1) = (st, s')"
    by (simp add: DeleteOutdatedCheckpoints_def)
  then have "env_step s s' \<and>
     (\<forall>p. map_of (files s') p = map_of (files s) p \<or>
           (map_of (files s') p = None \<and> fst p = CheckpointsDirectory \<and>
            (\<exists>i. GetFileIndex (snd p) ''checkpoint'' = Inr i \<and> i < chunk_index s))) \<and>
     (st = OkStatus \<longrightarrow> (\<forall>n i. map_of (files s') (CheckpointsDirectory, n) \<noteq> None \<longrightarrow>
           GetFileIndex n ''checkpoint'' = Inr i \<longrightarrow> chunk_index s \<le> i))"
  proof (cases rule: TF_ASSIGN_OR_RETURN_E)
    case (failed c)
    from GetChildren_cases[OF failed(1)] failed(2) show ?thesis by simp
  next
    case (passed names s1)
    note g = GetChildren_cases[OF passed(1)]
    note l = DeleteOutdatedCheckpoints_loop_cases[OF passed(2)]
    have ci: "chunk_index s1 = chunk_index s" using g by (simp add: env_step_iff)
    have names: "names = children CheckpointsDirectory (files s)" using g by simp
    have "env_step s s'" using g l(1) env_step_trans by blast
    moreover have "\<forall>p. map_of (files s') p = map_of (files s) p \<or>
           (map_of (files s') p = None \<and> fst p = CheckpointsDirectory \<and>
            (\<exists>i. GetFileIndex (snd p) ''checkpoint'' = Inr i \<and> i < chunk_index s))"
      using l(2) g ci by auto
    moreover have "\<forall>n i. map_of (files s') (CheckpointsDirectory, n) \<noteq> None \<longrightarrow>
           GetFileIndex n ''checkpoint'' = Inr i \<longrightarrow> chunk_index s \<le> i" if "st = OkStatus"
    proof (intro allI impI)
      fix n i
      assume present: "map_of (files s') (CheckpointsDirectory, n) \<noteq> None"
        and parsed: "GetFileIndex n ''checkpoint'' = Inr i"
      from l(2)[THEN spec, of "(CheckpointsDirectory, n)"] present g
      have "map_of (files s) (CheckpointsDirectory, n) \<noteq> None" by auto
      then have "n \<in> set names" by (simp add: names children_iff)
      with l(3)[OF that] parsed present ci show "chunk_index s \<le> i" by fastforce
    qed
    ultimately show ?thesis by blast
  qed
  then show "env_step s s'"
    and "\<forall>p. map_of (files s') p = map_of (files s) p \<or>
           (map_of (files s') p = None \<and> fst p = CheckpointsDirectory \<and>
            (\<exists>i. GetFileIndex (snd p) ''checkpoint'' = Inr i \<and> i < chunk_index s))"
    and "st = OkStatus \<Longrightarrow> \<forall>n i. map_of (files s') (CheckpointsDirectory, n) \<noteq> None \<longrightarrow>
           GetFileIndex n ''checkpoint'' = Inr i \<longrightarrow> chunk_index s \<le> i"
    by blast+
qed


lemma GetFileIndex_negative:
  assumes "j < 0"
  shows "GetFileIndex (StrCat (prefix @ ''_'') j) prefix = Inl INTERNAL"
proof -
  define ds where "ds = decimal (- j)"
  have d: "list_all is_digit ds" "ds \<noteq> []"
    using decimal_digits[of "- j"] assms by (simp_all add: ds_def)
  have name: "StrCat (prefix @ ''_'') j = (prefix @ ''_'') @ CHR ''-'' # ds"
    using assms by (simp add: StrCat_def ds_def)
  have nd: "\<not> is_digit CHR ''-''" by (simp add: is_digit_def)
  have t: "dropWhile is_digit (rev ((prefix @ ''_'') @ CHR ''-'' # ds)) = CHR ''-'' # rev (prefix @ ''_'')"
    using dropWhile_until[of is_digit "rev ds" "CHR ''-''" "rev (prefix @ ''_'')"] d(1) nd
    by simp
  have "\<not> ends_with (rev (CHR ''-'' # rev (prefix @ ''_''))) (prefix @ ''_'')"
  proof
    assume "ends_with (rev (CHR ''-'' # rev (prefix @ ''_''))) (prefix @ ''_'')"
    then have "drop 1 (prefix @ ''_-'') = prefix @ ''_''" by (simp add: ends_with_def)
    then have "last (drop 1 (prefix @ ''_-'')) = last (prefix @ ''_'')" by simp
    then show False by simp
  qed
  with t show ?thesis
    unfolding name GetFileIndex_def Let_def by (simp del: rev.simps rev_append)
qed

lemma GetFileIndex_StrCat_Inr:
  assumes "GetFileIndex (StrCat (prefix @ ''_'') j) prefix = Inr i"
  shows "i = j \<and> 0 \<le> j \<and> j \<le> kint64max"
proof (cases "j < 0")
  case True
  from GetFileIndex_negative[OF this, of prefix] assms show ?thesis by simp
next
  case False
  then have nn: "0 \<le> j" by simp
  have "GetFileIndex (StrCat (prefix @ ''_'') j) prefix =
      (if j \<le> kint64max then Inr j else Inl INTERNAL)"
    using GetFileIndex_suffix[of "decimal j" "[]" prefix] decimal_digits[OF nn]
      decimal_value_decimal[OF nn] nn
    by (simp add: StrCat_def)
  with assms nn show ?thesis by (simp split: if_splits)
qed

lemma CheckpointPath_index:
  assumes "GetFileIndex (snd (CheckpointPath j)) ''checkpoint'' = Inr i"
  shows "i = j \<and> 0 \<le> j \<and> j \<le> kint64max"
  using GetFileIndex_StrCat_Inr[of "''checkpoint''" j i] assms by (simp add: CheckpointPath_def)

lemma Save_cases:
  assumes "Save s = (st, s')"
  shows "env_step s s'"
    and "\<forall>p. fst p \<noteq> LocalTempDirectory \<longrightarrow> fst p \<noteq> CheckpointsDirectory \<longrightarrow>
           map_of (files s') p = map_of (files s) p"
    and "st = OkStatus \<Longrightarrow>
           map_of (files s') (CheckpointPath (chunk_index s)) = Some [Variant (cursor s)] \<and>
           GetFileIndex (snd (CheckpointPath (chunk_index s))) ''checkpoint'' = Inr (chunk_index s) \<and>
           (\<forall>n i. map_of (files s') (CheckpointsDirectory, n) \<noteq> None \<longrightarrow>
              GetFileIndex n ''checkpoint'' = Inr i \<longrightarrow> chunk_index s \<le> i)"
proof -
  define tmp_only where "tmp_only x \<longleftrightarrow> env_step s x \<and>
    (\<forall>p. fst p \<noteq> LocalTempDirectory \<longrightarrow> map_of (files x) p = map_of (files s) p)" for x
  define goal where "goal \<longleftrightarrow> env_step s s' \<and>
    (\<forall>p. fst p \<noteq> LocalTempDirectory \<longrightarrow> fst p \<noteq> CheckpointsDirectory \<longrightarrow>
           map_of (files s') p = map_of (files s) p) \<and>
    (st = OkStatus \<longrightarrow>
           map_of (files s') (CheckpointPath (chunk_index s)) = Some [Variant (cursor s)] \<and>
           GetFileIndex (snd (CheckpointPath (chunk_index s))) ''checkpoint'' = Inr (chunk_index s) \<and>
           (\<forall>n i. map_of (files s') (CheckpointsDirectory, n) \<noteq> None \<longrightarrow>
              GetFileIndex n ''checkpoint'' = Inr i \<longrightarrow> chunk_index s \<le> i))"
  have fail: "goal" if "tmp_only s'" "st \<noteq> OkStatus"
    using that unfolding goal_def tmp_only_def by simp
  obtain r0 s1 where l: "LocalTempFilename s = (r0, s1)" by (cases "LocalTempFilename s")
  note lc = LocalTempFilename_cases[OF l]
  have t1: "tmp_only s1" using lc by (simp add: tmp_only_def)
  have goal
  proof (cases r0)
    case None
    with assms l t1 show ?thesis by (auto simp: Save_def intro: fail)
  next
    case (Some tmp)
    then have tmp: "fst tmp = LocalTempDirectory" using lc by simp
    have ci1: "chunk_index s1 = chunk_index s" using lc by (simp add: env_step_iff)
    from assms l Some ci1 have
      "TF_RETURN_IF_ERROR (TFRecordWriter_Initialize tmp s1) (\<lambda>s2.
       TF_ASSIGN_OR_RETURN (TaskIterator_Save s2) (\<lambda>serialized s3.
       TF_RETURN_IF_ERROR (TFRecordWriter_WriteTensors tmp [serialized] s3) (\<lambda>s4.
       TF_RETURN_IF_ERROR (TFRecordWriter_Close tmp s4) (\<lambda>s5.
       TF_RETURN_IF_ERROR (RenameFile tmp (CheckpointPath (chunk_index s)) s5) (\<lambda>s6.
         DeleteOutdatedCheckpoints s6))))) = (st, s')"
      by (simp add: Save_def Let_def)
    then show ?thesis
    proof (cases rule: TF_RETURN_IF_ERROR_E)
      case (failed c)
      note i = TFRecordWriter_Initialize_cases[OF failed(1)]
      from i t1 failed(2) show ?thesis
        by (intro fail) (auto simp: tmp_only_def intro: env_step_trans)
    next
      case (passed s2)
      note i = TFRecordWriter_Initialize_cases[OF passed(1)]
      have t2: "tmp_only s2" using i t1 tmp
        by (auto simp: tmp_only_def map_of_update intro: env_step_trans)
      have c2: "file_contents (files s2) tmp = []" using i by simp
      from passed(2) show ?thesis
      proof (cases rule: TF_ASSIGN_OR_RETURN_E)
        case (failed c)
        from TaskIterator_Save_cases[OF failed(1)] t2 failed(2) show ?thesis
          by (intro fail) (auto simp: tmp_only_def intro: env_step_trans)
      next
        case (passed serialized s3)
        note sv = TaskIterator_Save_cases[OF passed(1)]
        have t3: "tmp_only s3" using sv t2 by (auto simp: tmp_only_def intro: env_step_trans)
        have ser: "serialized = Variant (cursor s)"
          using sv t2 by (simp add: tmp_only_def env_step_iff)
        have c3: "file_contents (files s3) tmp = []" using sv c2 by simp
        from passed(2) show ?thesis
        proof (cases rule: TF_RETURN_IF_ERROR_E)
          case (failed c)
          note w = TFRecordWriter_WriteTensors_cases[OF failed(1)]
          from w t3 failed(2) show ?thesis
            by (intro fail) (auto simp: tmp_only_def intro: env_step_trans)
        next
          case (passed s4)
          note w = TFRecordWriter_WriteTensors_cases[OF passed(1)]
          have t4: "tmp_only s4" using w t3 tmp
            by (auto simp: tmp_only_def map_of_update intro: env_step_trans)
          have c4: "map_of (files s4) tmp = Some [Variant (cursor s)]"
            using w c3 ser by (simp add: map_of_update)
          from passed(2) show ?thesis
          proof (cases rule: TF_RETURN_IF_ERROR_E)
            case (failed c)
            from TFRecordWriter_Close_cases[OF failed(1)] t4 failed(2) show ?thesis
              by (intro fail) (auto simp: tmp_only_def intro: env_step_trans)
          next
            case (passed s5)
            note cl = TFRecordWriter_Close_cases[OF passed(1)]
            have t5: "tmp_only s5" using cl t4 by (auto simp: tmp_only_def intro: env_step_trans)
            have c5: "map_of (files s5) tmp = Some [Variant (cursor s)]" using cl c4 by simp
            from passed(2) show ?thesis
            proof (cases rule: TF_RETURN_IF_ERROR_E)
              case (failed c)
              note rn = RenameFile_cases[OF failed(1)]
              from rn t5 failed(2) show ?thesis
                by (intro fail) (auto simp: tmp_only_def intro: env_step_trans)
            next
              case (passed s6)
              note rn = RenameFile_cases[OF passed(1)]
              have e6: "env_step s s6" using rn(1) t5 by (auto simp: tmp_only_def intro: env_step_trans)
              have f6: "map_of (files s6) =
                ((map_of (files s5))(tmp := None))(CheckpointPath (chunk_index s) \<mapsto> [Variant (cursor s)])"
                using rn(2) c5 by (auto simp: map_of_update map_of_delete)
              note dl = DeleteOutdatedCheckpoints_cases[OF passed(2)]
              have ci6: "chunk_index s6 = chunk_index s" using e6 by (simp add: env_step_iff)
              have "env_step s s'" using e6 dl(1) by (rule env_step_trans)
              moreover have "\<forall>p. fst p \<noteq> LocalTempDirectory \<longrightarrow> fst p \<noteq> CheckpointsDirectory \<longrightarrow>
                  map_of (files s') p = map_of (files s) p"
              proof (intro allI impI)
                fix p :: path
                assume p: "fst p \<noteq> LocalTempDirectory" "fst p \<noteq> CheckpointsDirectory"
                from dl(2)[THEN spec, of p] p have "map_of (files s') p = map_of (files s6) p" by auto
                also have "\<dots> = map_of (files s5) p"
                  using f6 p tmp by (auto simp: CheckpointPath_def)
                also have "\<dots> = map_of (files s) p" using t5 p by (cases p) (simp add: tmp_only_def)
                finally show "map_of (files s') p = map_of (files s) p" .
              qed
              moreover have "map_of (files s') (CheckpointPath (chunk_index s)) = Some [Variant (cursor s)] \<and>
                 GetFileIndex (snd (CheckpointPath (chunk_index s))) ''checkpoint'' = Inr (chunk_index s) \<and>
                 (\<forall>n i. map_of (files s') (CheckpointsDirectory, n) \<noteq> None \<longrightarrow>
                    GetFileIndex n ''checkpoint'' = Inr i \<longrightarrow> chunk_index s \<le> i)" if ok: "st = OkStatus"
              proof -
                have present: "map_of (files s6) (CheckpointPath (chunk_index s)) = Some [Variant (cursor s)]"
                  using f6 by simp
                have all: "\<forall>n i. map_of (files s') (CheckpointsDirectory, n) \<noteq> None \<longrightarrow>
                    GetFileIndex n ''checkpoint'' = Inr i \<longrightarrow> chunk_index s \<le> i"
                  using dl(3)[OF ok] ci6 by simp
                have mem: "snd (CheckpointPath (chunk_index s)) \<in> set (children CheckpointsDirectory (files s6))"
                  using present by (simp add: children_iff CheckpointPath_def)
                obtain names s7 where g: "GetChildren CheckpointsDirectory s6 = (Inr names, s7)"
                  and lp: "DeleteOutdatedCheckpoints_loop names s7 = (st, s')"
                  using passed(2) unfolding DeleteOutdatedCheckpoints_def
                  by (cases rule: TF_ASSIGN_OR_RETURN_E) (use ok in auto)
                from GetChildren_cases[OF g] have names: "names = children CheckpointsDirectory (files s6)"
                  by simp
                from DeleteOutdatedCheckpoints_loop_cases(3)[OF lp ok] names mem
                obtain i where i: "GetFileIndex (snd (CheckpointPath (chunk_index s))) ''checkpoint'' = Inr i"
                  by blast
                from CheckpointPath_index[OF i] i
                have parsed: "GetFileIndex (snd (CheckpointPath (chunk_index s))) ''checkpoint'' = Inr (chunk_index s)"
                  by simp
                from dl(2)[THEN spec, of "CheckpointPath (chunk_index s)"] present parsed ci6
                have "map_of (files s') (CheckpointPath (chunk_index s)) = Some [Variant (cursor s)]"
                  by auto
                with parsed all show ?thesis by blast
              qed
              ultimately show ?thesis unfolding goal_def by blast
            qed
          qed
        qed
      qed
    qed
  qed
  then show "env_step s s'"
    and "\<forall>p. fst p \<noteq> LocalTempDirectory \<longrightarrow> fst p \<noteq> CheckpointsDirectory \<longrightarrow>
           map_of (files s') p = map_of (files s) p"
    and "st = OkStatus \<Longrightarrow>
           map_of (files s') (CheckpointPath (chunk_index s)) = Some [Variant (cursor s)] \<and>
           GetFileIndex (snd (CheckpointPath (chunk_index s))) ''checkpoint'' = Inr (chunk_index s) \<and>
           (\<forall>n i. map_of (files s') (CheckpointsDirectory, n) \<noteq> None \<longrightarrow>
              GetFileIndex n ''checkpoint'' = Inr i \<longrightarrow> chunk_index s \<le> i)"
    unfolding goal_def by blast+
qed

subsection \<open>Committing a chunk\<close>

lemma mutex_lock_fields [simp]:
  "chunk_index (mutex_lock s) = chunk_index s" "chunk_size_bytes (mutex_lock s) = chunk_size_bytes s"
  "end_of_sequence (mutex_lock s) = end_of_sequence s"
  "cursor (mutex_lock s) = cursor s" "elements (mutex_lock s) = elements s"
  "max_chunk_size_bytes (mutex_lock s) = max_chunk_size_bytes s"
  "estimated_size_bytes (mutex_lock s) = estimated_size_bytes s"
  "snapshot_thread (mutex_lock s) = snapshot_thread s"
  "files (mutex_lock s) = files s" "history (mutex_lock s) = history s" "fault (mutex_lock s) = fault s"
  by (simp_all add: mutex_lock_def Cancel_def split: option.splits)

lemma mutex_lock_no_cancel [simp]: "cancel_in s = None \<Longrightarrow> mutex_lock s = s"
  by (simp add: mutex_lock_def)

lemma mutex_lock_status: "status (mutex_lock s) = status s \<or> status (mutex_lock s) = Error CANCELLED"
  by (simp add: mutex_lock_def Cancel_def split: option.splits)

lemma CommitChunk_cases:
  assumes "CommitChunk p s = (st, s')" and "fst p = UncommittedChunksDirectory"
  shows "st = OkStatus \<Longrightarrow> chunk_index s' = int64_t (chunk_index s + 1) \<and> chunk_size_bytes s' = 0 \<and>
           map_of (files s') p = None \<and> map_of (files s) p \<noteq> None \<and>
           map_of (files s') (CommittedChunksDirectory, snd p) = map_of (files s) p"
    and "st = OkStatus \<Longrightarrow> fst (ShouldSave s) \<Longrightarrow>
           map_of (files s') (CheckpointPath (chunk_index s)) = Some [Variant (cursor s)]"
    and "st \<noteq> OkStatus \<Longrightarrow> chunk_index s' = chunk_index s \<and> chunk_size_bytes s' = chunk_size_bytes s \<and>
           map_of (files s') p = map_of (files s) p \<and>
           map_of (files s') (CommittedChunksDirectory, snd p) = map_of (files s) (CommittedChunksDirectory, snd p)"
    and "\<not> fst (ShouldSave s) \<Longrightarrow>
           \<forall>name. map_of (files s') (CheckpointsDirectory, name) = map_of (files s) (CheckpointsDirectory, name)"
proof -
  define s1 where "s1 = mutex_lock s"
  define b where "b = (\<not> end_of_sequence s1 \<and> ok (status s1))"
  have sh: "ShouldSave s = (b, s1)" by (simp add: ShouldSave_def Let_def s1_def b_def)
  define r where "r = (if b then Save s1 else (OkStatus, s1))"
  have r: "(case ShouldSave s of (True, s1) \<Rightarrow> Save s1 | (False, s1) \<Rightarrow> (OkStatus, s1)) = r"
    by (simp add: sh r_def)
  obtain st2 s2 where r2: "r = (st2, s2)" by (cases r)
  text \<open>the state before the chunk is renamed\<close>
  have pre: "env_step s1 s2 \<and>
    (\<forall>q. fst q \<noteq> LocalTempDirectory \<longrightarrow> fst q \<noteq> CheckpointsDirectory \<longrightarrow>
       map_of (files s2) q = map_of (files s1) q) \<and>
    (b \<longrightarrow> st2 = OkStatus \<longrightarrow>
       map_of (files s2) (CheckpointPath (chunk_index s)) = Some [Variant (cursor s)]) \<and>
    (\<not> b \<longrightarrow> files s2 = files s1 \<and> st2 = OkStatus)"
  proof (cases b)
    case True
    with r2 have sv: "Save s1 = (st2, s2)" by (simp add: r_def)
    from Save_cases[OF sv] True show ?thesis by (simp add: s1_def)
  next
    case False
    with r2 show ?thesis by (simp add: r_def)
  qed
  have same2: "chunk_index s2 = chunk_index s" "chunk_size_bytes s2 = chunk_size_bytes s"
    using pre by (simp_all add: env_step_iff s1_def)
  have p2: "map_of (files s2) p = map_of (files s) p"
    and c2: "map_of (files s2) (CommittedChunksDirectory, snd p) = map_of (files s) (CommittedChunksDirectory, snd p)"
    using pre assms(2) by (cases p; simp add: s1_def)+
  from assms(1) r r2 have
    "TF_RETURN_IF_ERROR (st2, s2) (\<lambda>s2.
       TF_RETURN_IF_ERROR (RenameFile p (CommittedChunksDirectory, snd p) s2) (\<lambda>s3.
         (OkStatus, s3\<lparr>chunk_index := int64_t (chunk_index s3 + 1), chunk_size_bytes := 0\<rparr>))) = (st, s')"
    by (simp add: CommitChunk_def Let_def)
  then have "(st = OkStatus \<longrightarrow> chunk_index s' = int64_t (chunk_index s + 1) \<and> chunk_size_bytes s' = 0 \<and>
           map_of (files s') p = None \<and> map_of (files s) p \<noteq> None \<and>
           map_of (files s') (CommittedChunksDirectory, snd p) = map_of (files s) p) \<and>
    (st = OkStatus \<longrightarrow> b \<longrightarrow>
           map_of (files s') (CheckpointPath (chunk_index s)) = Some [Variant (cursor s)]) \<and>
    (st \<noteq> OkStatus \<longrightarrow> chunk_index s' = chunk_index s \<and> chunk_size_bytes s' = chunk_size_bytes s \<and>
           map_of (files s') p = map_of (files s) p \<and>
           map_of (files s') (CommittedChunksDirectory, snd p) = map_of (files s) (CommittedChunksDirectory, snd p)) \<and>
    (\<not> b \<longrightarrow>
           (\<forall>name. map_of (files s') (CheckpointsDirectory, name) = map_of (files s) (CheckpointsDirectory, name)))"
  proof (cases rule: TF_RETURN_IF_ERROR_E)
    case (failed c)
    with pre same2 p2 c2 show ?thesis by auto
  next
    case (passed s2')
    then have [simp]: "s2' = s2" "st2 = OkStatus" by simp_all
    from passed(2) show ?thesis
    proof (cases rule: TF_RETURN_IF_ERROR_E)
      case (failed c)
      note rn = RenameFile_cases[OF failed(1)]
      have "chunk_index s' = chunk_index s2" "chunk_size_bytes s' = chunk_size_bytes s2"
        using rn(1) by (simp_all add: env_step_iff)
      with rn(3) failed(2) same2 p2 c2 pre show ?thesis by (auto simp: s1_def)
    next
      case (passed s3)
      note rn = RenameFile_cases[OF passed(1)]
      from passed(2) have st: "st = OkStatus"
        and s': "s' = s3\<lparr>chunk_index := int64_t (chunk_index s3 + 1), chunk_size_bytes := 0\<rparr>" by simp_all
      have ci: "chunk_index s3 = chunk_index s" using rn(1) same2 by (simp add: env_step_iff)
      from rn(2) obtain ts where ts: "map_of (files s2) p = Some ts"
        and f3: "files s3 = AList.update (CommittedChunksDirectory, snd p) ts (AList.delete p (files s2))"
        by auto
      have ne: "p \<noteq> (CommittedChunksDirectory, snd p)" using assms(2) by (cases p) auto
      have m3: "map_of (files s3) = ((map_of (files s2))(p := None))((CommittedChunksDirectory, snd p) \<mapsto> ts)"
        by (simp add: f3 map_of_update map_of_delete)
      have ck: "map_of (files s3) (CheckpointsDirectory, name) = map_of (files s2) (CheckpointsDirectory, name)" for name
        using m3 assms(2) by (cases p) auto
      have "map_of (files s') p = None" using m3 ne s' by simp
      moreover have "map_of (files s') (CommittedChunksDirectory, snd p) = map_of (files s) p"
        using m3 s' ts p2 by simp
      moreover have "map_of (files s) p \<noteq> None" using ts p2 by simp
      moreover have "b \<longrightarrow> map_of (files s') (CheckpointPath (chunk_index s)) = Some [Variant (cursor s)]"
        using pre ck[of "snd (CheckpointPath (chunk_index s))"] s' by (simp add: CheckpointPath_def)
      moreover have "\<not> b \<longrightarrow> (\<forall>name. map_of (files s') (CheckpointsDirectory, name) = map_of (files s) (CheckpointsDirectory, name))"
        using pre ck s' by (simp add: s1_def)
      ultimately show ?thesis using st s' ci by simp
    qed
  qed
  then show "st = OkStatus \<Longrightarrow> chunk_index s' = int64_t (chunk_index s + 1) \<and> chunk_size_bytes s' = 0 \<and>
           map_of (files s') p = None \<and> map_of (files s) p \<noteq> None \<and>
           map_of (files s') (CommittedChunksDirectory, snd p) = map_of (files s) p"
    and "st = OkStatus \<Longrightarrow> fst (ShouldSave s) \<Longrightarrow>
           map_of (files s') (CheckpointPath (chunk_index s)) = Some [Variant (cursor s)]"
    and "st \<noteq> OkStatus \<Longrightarrow> chunk_index s' = chunk_index s \<and> chunk_size_bytes s' = chunk_size_bytes s \<and>
           map_of (files s') p = map_of (files s) p \<and>
           map_of (files s') (CommittedChunksDirectory, snd p) = map_of (files s) (CommittedChunksDirectory, snd p)"
    and "\<not> fst (ShouldSave s) \<Longrightarrow>
           \<forall>name. map_of (files s') (CheckpointsDirectory, name) = map_of (files s) (CheckpointsDirectory, name)"
    by (simp_all add: sh)
qed


subsection \<open>The status under cancellation, and writing records\<close>

lemma lock_rel_quiet: "status s' = status s \<Longrightarrow> cancel_in s' = cancel_in s \<Longrightarrow> lock_rel s s'"
  by (auto simp: lock_rel_def)

lemma lock_rel_refl [simp]: "lock_rel s s"
  by (simp add: lock_rel_quiet)

lemma lock_rel_trans: "lock_rel s s1 \<Longrightarrow> lock_rel s1 s2 \<Longrightarrow> lock_rel s s2"
  unfolding lock_rel_def by (cases "cancel_in s1") auto

lemma lock_rel_env_step: "env_step s s' \<Longrightarrow> lock_rel s s'"
  by (simp add: env_step_iff lock_rel_quiet)

lemma lock_rel_mutex_lock [simp]: "lock_rel s (mutex_lock s)"
  by (auto simp: lock_rel_def mutex_lock_def Cancel_def split: option.splits)

lemma TaskIterator_GetNext_cases:
  assumes "TaskIterator_GetNext s = (r, s')"
  shows "files s' = files s" "history s' = history s" "status s' = status s" "cancel_in s' = cancel_in s"
    "chunk_index s' = chunk_index s" "chunk_size_bytes s' = chunk_size_bytes s" "elements s' = elements s"
    "max_chunk_size_bytes s' = max_chunk_size_bytes s" "estimated_size_bytes s' = estimated_size_bytes s"
    "snapshot_thread s' = snapshot_thread s"
    and "\<And>c. r = Inl c \<Longrightarrow> cursor s' = cursor s \<and> end_of_sequence s' = end_of_sequence s"
    and "\<And>element. r = Inr element \<Longrightarrow>
           (if cursor s < length (elements s)
            then element = elements s ! cursor s \<and> cursor s' = Suc (cursor s) \<and> \<not> end_of_sequence s'
            else cursor s' = cursor s \<and> end_of_sequence s')"
proof -
  obtain st1 s1 where e: "external_call s = (st1, s1)" by (cases "external_call s")
  note c = external_call_cases[OF e]
  from assms e c show "files s' = files s" "history s' = history s" "status s' = status s"
    "cancel_in s' = cancel_in s" "chunk_index s' = chunk_index s"
    "chunk_size_bytes s' = chunk_size_bytes s" "elements s' = elements s"
    "max_chunk_size_bytes s' = max_chunk_size_bytes s" "estimated_size_bytes s' = estimated_size_bytes s"
    "snapshot_thread s' = snapshot_thread s"
    by (cases st1; auto simp: TaskIterator_GetNext_def env_step_iff split: if_splits)+
  from assms e c show "\<And>c. r = Inl c \<Longrightarrow> cursor s' = cursor s \<and> end_of_sequence s' = end_of_sequence s"
    by (cases st1) (auto simp: TaskIterator_GetNext_def env_step_iff split: if_splits)
  from assms e c show "\<And>element. r = Inr element \<Longrightarrow>
           (if cursor s < length (elements s)
            then element = elements s ! cursor s \<and> cursor s' = Suc (cursor s) \<and> \<not> end_of_sequence s'
            else cursor s' = cursor s \<and> end_of_sequence s')"
    by (cases st1) (auto simp: TaskIterator_GetNext_def env_step_iff split: if_splits)
qed

lemma TaskIterator_Restore_cases:
  assumes "TaskIterator_Restore t s = (st, s')"
  shows "files s' = files s" "history s' = history s" "status s' = status s" "cancel_in s' = cancel_in s"
    "chunk_index s' = chunk_index s" "chunk_size_bytes s' = chunk_size_bytes s" "elements s' = elements s"
    "max_chunk_size_bytes s' = max_chunk_size_bytes s" "estimated_size_bytes s' = estimated_size_bytes s"
    "snapshot_thread s' = snapshot_thread s" "end_of_sequence s' = end_of_sequence s"
    and "st = OkStatus \<Longrightarrow> t = Variant (cursor s')"
    and "st \<noteq> OkStatus \<Longrightarrow> cursor s' = cursor s"
proof -
  obtain st1 s1 where e: "external_call s = (st1, s1)" by (cases "external_call s")
  note c = external_call_cases[OF e]
  from assms e c show "files s' = files s" "history s' = history s" "status s' = status s"
    "cancel_in s' = cancel_in s" "chunk_index s' = chunk_index s"
    "chunk_size_bytes s' = chunk_size_bytes s" "elements s' = elements s"
    "max_chunk_size_bytes s' = max_chunk_size_bytes s" "estimated_size_bytes s' = estimated_size_bytes s"
    "snapshot_thread s' = snapshot_thread s" "end_of_sequence s' = end_of_sequence s"
    by (cases st1; cases t; auto simp: TaskIterator_Restore_def TF_RETURN_IF_ERROR_def env_step_iff)+
  from assms e c show "st = OkStatus \<Longrightarrow> t = Variant (cursor s')"
    by (cases st1; cases t) (auto simp: TaskIterator_Restore_def TF_RETURN_IF_ERROR_def)
  from assms e c show "st \<noteq> OkStatus \<Longrightarrow> cursor s' = cursor s"
    by (cases st1; cases t) (auto simp: TaskIterator_Restore_def TF_RETURN_IF_ERROR_def env_step_iff)
qed

lemma WriteRecord_cases:
  assumes "WriteRecord writer s = (st, s')"
  shows "status s' = status s" "cancel_in s' = cancel_in s" "chunk_index s' = chunk_index s"
    "elements s' = elements s" "max_chunk_size_bytes s' = max_chunk_size_bytes s"
    "estimated_size_bytes s' = estimated_size_bytes s" "snapshot_thread s' = snapshot_thread s"
    and "st = OkStatus \<Longrightarrow>
      (if cursor s < length (elements s)
       then cursor s' = Suc (cursor s) \<and> \<not> end_of_sequence s' \<and>
            files s' = AList.update writer (file_contents (files s) writer @ elements s ! cursor s) (files s) \<and>
            history s' = history s @ [files s'] \<and>
            chunk_size_bytes s' = chunk_size_bytes s + estimated_size_bytes s (elements s ! cursor s)
       else cursor s' = cursor s \<and> end_of_sequence s' \<and> files s' = files s \<and>
            history s' = history s \<and> chunk_size_bytes s' = chunk_size_bytes s)"
    and "st \<noteq> OkStatus \<Longrightarrow> files s' = files s \<and> history s' = history s \<and>
           chunk_size_bytes s' = chunk_size_bytes s \<and>
           (cursor s' = cursor s \<or> cursor s < length (elements s) \<and> cursor s' = Suc (cursor s))"
proof -
  define frame where "frame x y \<longleftrightarrow> status y = status x \<and> cancel_in y = cancel_in x \<and>
    chunk_index y = chunk_index x \<and> elements y = elements x \<and>
    max_chunk_size_bytes y = max_chunk_size_bytes x \<and>
    estimated_size_bytes y = estimated_size_bytes x \<and> snapshot_thread y = snapshot_thread x" for x y :: "'a writer"
  define goal where "goal \<longleftrightarrow> frame s s' \<and>
    (st = OkStatus \<longrightarrow>
      (if cursor s < length (elements s)
       then cursor s' = Suc (cursor s) \<and> \<not> end_of_sequence s' \<and>
            files s' = AList.update writer (file_contents (files s) writer @ elements s ! cursor s) (files s) \<and>
            history s' = history s @ [files s'] \<and>
            chunk_size_bytes s' = chunk_size_bytes s + estimated_size_bytes s (elements s ! cursor s)
       else cursor s' = cursor s \<and> end_of_sequence s' \<and> files s' = files s \<and>
            history s' = history s \<and> chunk_size_bytes s' = chunk_size_bytes s)) \<and>
    (st \<noteq> OkStatus \<longrightarrow> files s' = files s \<and> history s' = history s \<and>
           chunk_size_bytes s' = chunk_size_bytes s \<and>
           (cursor s' = cursor s \<or> cursor s < length (elements s) \<and> cursor s' = Suc (cursor s)))"
  from assms have "TF_ASSIGN_OR_RETURN (TaskIterator_GetNext s) (\<lambda>element s1.
       if end_of_sequence s1 then TFRecordWriter_Close writer s1
       else
         TF_RETURN_IF_ERROR (TFRecordWriter_WriteTensors writer element s1) (\<lambda>s2.
           (OkStatus,
            s2\<lparr>chunk_size_bytes := chunk_size_bytes s2 + estimated_size_bytes s2 element\<rparr>))) = (st, s')"
    by (simp add: WriteRecord_def)
  then have goal
  proof (cases rule: TF_ASSIGN_OR_RETURN_E)
    case (failed c)
    from TaskIterator_GetNext_cases[OF failed(1)] failed(2) show ?thesis
      by (simp add: goal_def frame_def)
  next
    case (passed element s1)
    note g = TaskIterator_GetNext_cases[OF passed(1)]
    have f1: "frame s s1" using g by (simp add: frame_def)
    show ?thesis
    proof (cases "end_of_sequence s1")
      case True
      with passed(2) have cl: "TFRecordWriter_Close writer s1 = (st, s')" by simp
      note c = TFRecordWriter_Close_cases[OF cl]
      from g(12)[OF refl] True have "\<not> cursor s < length (elements s)" "cursor s1 = cursor s"
        by (auto split: if_splits)
      with c g(1-10) f1 True show ?thesis
        by (simp add: goal_def frame_def env_step_iff)
    next
      case False
      from g(12)[OF refl] False have lt: "cursor s < length (elements s)"
        and el: "element = elements s ! cursor s" and cu: "cursor s1 = Suc (cursor s)"
        by (auto split: if_splits)
      from passed(2) False have
        "TF_RETURN_IF_ERROR (TFRecordWriter_WriteTensors writer element s1) (\<lambda>s2.
           (OkStatus,
            s2\<lparr>chunk_size_bytes := chunk_size_bytes s2 + estimated_size_bytes s2 element\<rparr>)) = (st, s')"
        by simp
      then show ?thesis
      proof (cases rule: TF_RETURN_IF_ERROR_E)
        case (failed c)
        note w = TFRecordWriter_WriteTensors_cases[OF failed(1)]
        from w(1,3) g(1-10) f1 failed(2) lt cu show ?thesis
          by (simp add: goal_def frame_def env_step_iff)
      next
        case (passed s2)
        note w = TFRecordWriter_WriteTensors_cases[OF passed(1)]
        from passed(2) have st: "st = OkStatus"
          and s': "s' = s2\<lparr>chunk_size_bytes := chunk_size_bytes s2 + estimated_size_bytes s2 element\<rparr>"
          by simp_all
        from w(1,2) g(1-10) f1 lt el cu False st s' show ?thesis
          by (simp add: goal_def frame_def env_step_iff)
      qed
    qed
  qed
  then show "status s' = status s" "cancel_in s' = cancel_in s" "chunk_index s' = chunk_index s"
    "elements s' = elements s" "max_chunk_size_bytes s' = max_chunk_size_bytes s"
    "estimated_size_bytes s' = estimated_size_bytes s" "snapshot_thread s' = snapshot_thread s"
    and "st = OkStatus \<Longrightarrow>
      (if cursor s < length (elements s)
       then cursor s' = Suc (cursor s) \<and> \<not> end_of_sequence s' \<and>
            files s' = AList.update writer (file_contents (files s) writer @ elements s ! cursor s) (files s) \<and>
            history s' = history s @ [files s'] \<and>
            chunk_size_bytes s' = chunk_size_bytes s + estimated_size_bytes s (elements s ! cursor s)
       else cursor s' = cursor s \<and> end_of_sequence s' \<and> files s' = files s \<and>
            history s' = history s \<and> chunk_size_bytes s' = chunk_size_bytes s)"
    and "st \<noteq> OkStatus \<Longrightarrow> files s' = files s \<and> history s' = history s \<and>
           chunk_size_bytes s' = chunk_size_bytes s \<and>
           (cursor s' = cursor s \<or> cursor s < length (elements s) \<and> cursor s' = Suc (cursor s))"
    unfolding goal_def frame_def by simp_all
qed


lemma WriteChunk_loop_all:
  "WriteChunk_loop writer s = (st, s') \<Longrightarrow>
     lock_rel s s' \<and>
     (chunk_index s' = chunk_index s \<and> elements s' = elements s \<and>
         max_chunk_size_bytes s' = max_chunk_size_bytes s \<and>
         estimated_size_bytes s' = estimated_size_bytes s \<and> snapshot_thread s' = snapshot_thread s) \<and>
     (cursor s \<le> cursor s' \<and> length (pulled s s') = cursor s' - cursor s) \<and>
     (\<forall>k < length (pulled s s').
           chunk_size_bytes s + sum_list (map (estimated_size_bytes s) (take k (pulled s s')))
             < max_chunk_size_bytes s) \<and>
     (pulled s s' \<noteq> [] \<longrightarrow> \<not> end_of_sequence s \<and> ok (status (mutex_lock s))) \<and>
     (st = OkStatus \<longrightarrow>
           chunk_size_bytes s' = chunk_size_bytes s + sum_list (map (estimated_size_bytes s) (pulled s s')) \<and>
           file_contents (files s') writer = file_contents (files s) writer @ concat (pulled s s'))"
proof (induction writer s arbitrary: st s' rule: WriteChunk_loop.induct)
  case (1 writer s)
  define s1 where "s1 = mutex_lock s"
  define b where "b = (chunk_size_bytes s1 < max_chunk_size_bytes s1 \<and> \<not> end_of_sequence s1 \<and> ok (status s1))"
  have sh: "ShouldWriteRecord s = (b, s1)" by (simp add: ShouldWriteRecord_def Let_def s1_def b_def)
  define goal where "goal \<longleftrightarrow>
     lock_rel s s' \<and>
     (chunk_index s' = chunk_index s \<and> elements s' = elements s \<and>
         max_chunk_size_bytes s' = max_chunk_size_bytes s \<and>
         estimated_size_bytes s' = estimated_size_bytes s \<and> snapshot_thread s' = snapshot_thread s) \<and>
     (cursor s \<le> cursor s' \<and> length (pulled s s') = cursor s' - cursor s) \<and>
     (\<forall>k < length (pulled s s').
           chunk_size_bytes s + sum_list (map (estimated_size_bytes s) (take k (pulled s s')))
             < max_chunk_size_bytes s) \<and>
     (pulled s s' \<noteq> [] \<longrightarrow> \<not> end_of_sequence s \<and> ok (status (mutex_lock s))) \<and>
     (st = OkStatus \<longrightarrow>
           chunk_size_bytes s' = chunk_size_bytes s + sum_list (map (estimated_size_bytes s) (pulled s s')) \<and>
           file_contents (files s') writer = file_contents (files s) writer @ concat (pulled s s'))"
  have goal
  proof (cases b)
    case False
    with "1.prems" sh have "st = OkStatus" "s' = s1" by (simp_all add: WriteChunk_loop.simps[of writer s])
    then show ?thesis by (simp add: goal_def s1_def pulled_def)
  next
    case True
    then have guard: "chunk_size_bytes s < max_chunk_size_bytes s" "\<not> end_of_sequence s" "ok (status (mutex_lock s))"
      by (simp_all add: b_def s1_def)
    obtain st2 s2 where wr: "WriteRecord writer s1 = (st2, s2)" by (cases "WriteRecord writer s1")
    note w = WriteRecord_cases[OF wr]
    have "lock_rel s1 s2" using w(1,2) by (rule lock_rel_quiet)
    then have l2: "lock_rel s s2"
      using lock_rel_mutex_lock[of s] unfolding s1_def by (rule lock_rel_trans[rotated])
    have fr2: "chunk_index s2 = chunk_index s" "elements s2 = elements s"
      "max_chunk_size_bytes s2 = max_chunk_size_bytes s" "estimated_size_bytes s2 = estimated_size_bytes s"
      "snapshot_thread s2 = snapshot_thread s"
      using w(3-7) by (simp_all add: s1_def)
    show ?thesis
    proof (cases st2)
      case (Error c)
      with "1.prems" sh True wr have r: "st = Error c" "s' = s2"
        by (simp_all add: WriteChunk_loop.simps[of writer s])
      from w(9) Error have cur: "cursor s2 = cursor s \<or> cursor s < length (elements s) \<and> cursor s2 = Suc (cursor s)"
        by (simp add: s1_def)
      then have len: "length (pulled s s2) = cursor s2 - cursor s" by (auto simp: pulled_def)
      with cur have short: "length (pulled s s2) \<le> 1" by auto
      have "\<forall>k < length (pulled s s2).
           chunk_size_bytes s + sum_list (map (estimated_size_bytes s) (take k (pulled s s2)))
             < max_chunk_size_bytes s"
      proof (intro allI impI)
        fix k
        assume "k < length (pulled s s2)"
        with short have "k = 0" by simp
        with guard(1) show "chunk_size_bytes s + sum_list (map (estimated_size_bytes s) (take k (pulled s s2)))
             < max_chunk_size_bytes s" by simp
      qed
      with r l2 fr2 cur guard len show ?thesis by (auto simp: goal_def)
    next
      case OkStatus
      with "1.prems" sh True wr have rec: "WriteChunk_loop writer s2 = (st, s')"
        by (simp add: WriteChunk_loop.simps[of writer s])
      note ih0 = "1.IH"[OF sh[symmetric] True[THEN eqTrueI] wr[symmetric] OkStatus rec]
      note ih = ih0[THEN conjunct1] ih0[THEN conjunct2, THEN conjunct1]
        ih0[THEN conjunct2, THEN conjunct2, THEN conjunct1]
        ih0[THEN conjunct2, THEN conjunct2, THEN conjunct2, THEN conjunct1]
        ih0[THEN conjunct2, THEN conjunct2, THEN conjunct2, THEN conjunct2, THEN conjunct1]
        ih0[THEN conjunct2, THEN conjunct2, THEN conjunct2, THEN conjunct2, THEN conjunct2]
      show ?thesis
      proof (cases "cursor s < length (elements s)")
        case False
        with w(8) OkStatus have eos: "end_of_sequence s2" and same: "cursor s2 = cursor s"
          "files s2 = files s" "chunk_size_bytes s2 = chunk_size_bytes s"
          by (simp_all add: s1_def)
        have p: "pulled s s' = pulled s2 s'" using same fr2 by (simp add: pulled_def)
        from ih(5) eos have "pulled s2 s' = []" by auto
        with ih l2 fr2 same p guard show ?thesis
          by (auto simp: goal_def intro: lock_rel_trans)
      next
        case lt: True
        define e where "e = elements s ! cursor s"
        from w(8) OkStatus lt have step: "cursor s2 = Suc (cursor s)"
          "files s2 = AList.update writer (file_contents (files s) writer @ e) (files s)"
          "chunk_size_bytes s2 = chunk_size_bytes s + estimated_size_bytes s e"
          by (simp_all add: s1_def e_def)
        have le: "Suc (cursor s) \<le> cursor s'" using ih(3) step by simp
        have "drop (cursor s) (elements s) = e # drop (Suc (cursor s)) (elements s)"
          using lt by (simp add: e_def Cons_nth_drop_Suc)
        moreover have "cursor s' - cursor s = Suc (cursor s' - Suc (cursor s))" using le by simp
        ultimately have p: "pulled s s' = e # pulled s2 s'"
          using step fr2 by (simp add: pulled_def)
        have bound: "\<forall>k < length (pulled s s').
           chunk_size_bytes s + sum_list (map (estimated_size_bytes s) (take k (pulled s s')))
             < max_chunk_size_bytes s"
        proof (intro allI impI)
          fix k
          assume k: "k < length (pulled s s')"
          show "chunk_size_bytes s + sum_list (map (estimated_size_bytes s) (take k (pulled s s')))
             < max_chunk_size_bytes s"
          proof (cases k)
            case 0
            with guard show ?thesis by simp
          next
            case (Suc j)
            with k p have "j < length (pulled s2 s')" by simp
            with ih(4) have "chunk_size_bytes s2 + sum_list (map (estimated_size_bytes s2) (take j (pulled s2 s')))
               < max_chunk_size_bytes s2" by blast
            with Suc p step fr2 show ?thesis by (simp add: add.assoc)
          qed
        qed
        have "lock_rel s s'" using l2 ih(1) by (rule lock_rel_trans)
        moreover have "cursor s \<le> cursor s' \<and> length (pulled s s') = cursor s' - cursor s"
          using ih(3) step p le by simp
        moreover have "st = OkStatus \<longrightarrow>
           chunk_size_bytes s' = chunk_size_bytes s + sum_list (map (estimated_size_bytes s) (pulled s s')) \<and>
           file_contents (files s') writer = file_contents (files s) writer @ concat (pulled s s')"
          using ih(6) p step fr2 by (simp add: add.assoc)
        ultimately show ?thesis using ih(2) fr2 bound guard by (simp add: goal_def)
      qed
    qed
  qed
  then show ?case unfolding goal_def .
qed

lemma WriteChunk_loop_cases:
  assumes "WriteChunk_loop writer s = (st, s')"
  shows "lock_rel s s'"
    and "chunk_index s' = chunk_index s \<and> elements s' = elements s \<and>
         max_chunk_size_bytes s' = max_chunk_size_bytes s \<and>
         estimated_size_bytes s' = estimated_size_bytes s \<and> snapshot_thread s' = snapshot_thread s"
    and "cursor s \<le> cursor s' \<and> length (pulled s s') = cursor s' - cursor s"
    and "\<forall>k < length (pulled s s').
           chunk_size_bytes s + sum_list (map (estimated_size_bytes s) (take k (pulled s s')))
             < max_chunk_size_bytes s"
    and "pulled s s' \<noteq> [] \<Longrightarrow> \<not> end_of_sequence s \<and> ok (status (mutex_lock s))"
    and "st = OkStatus \<Longrightarrow>
           chunk_size_bytes s' = chunk_size_bytes s + sum_list (map (estimated_size_bytes s) (pulled s s')) \<and>
           file_contents (files s') writer = file_contents (files s) writer @ concat (pulled s s')"
  using WriteChunk_loop_all[OF assms] by blast+


subsection \<open>Recovery\<close>

lemma SyncCheckpointWithChunks_loop_all:
  "SyncCheckpointWithChunks_loop names k s = (st, s') \<Longrightarrow>
     env_step s s' \<and>
     (st = OkStatus \<longrightarrow> distinct names \<longrightarrow>
        (\<forall>n \<in> set names. \<exists>i. GetFileIndex n ''chunk'' = Inr i \<and>
           map_of (files s) (UncommittedChunksDirectory, n) \<noteq> None \<and>
           map_of (files s') (UncommittedChunksDirectory, n) = None \<and>
           map_of (files s') (CommittedChunksDirectory, n) =
             (if i \<le> k then map_of (files s) (UncommittedChunksDirectory, n)
              else map_of (files s) (CommittedChunksDirectory, n))) \<and>
        (\<forall>dir n. n \<notin> set names \<or> (dir \<noteq> UncommittedChunksDirectory \<and> dir \<noteq> CommittedChunksDirectory) \<longrightarrow>
           map_of (files s') (dir, n) = map_of (files s) (dir, n)))"
proof (induction names arbitrary: s)
  case Nil
  then show ?case by simp
next
  case (Cons name names)
  show ?case
  proof (cases "GetFileIndex name ''chunk''")
    case (Inl c)
    with Cons.prems show ?thesis by auto
  next
    case (Inr i)
    let ?unc = "(UncommittedChunksDirectory, name)"
    let ?com = "(CommittedChunksDirectory, name)"
    define r where "r = (if i \<le> k then RenameFile ?unc ?com s else DeleteFile ?unc s)"
    obtain st1 s1 where r1: "r = (st1, s1)" by (cases r)
    have e1: "env_step s s1"
      using r1 RenameFile_cases(1)[of ?unc ?com s st1 s1] DeleteFile_cases(1)[of ?unc s st1 s1]
      by (auto simp: r_def split: if_splits)
    show ?thesis
    proof (cases st1)
      case (Error c)
      with Cons.prems Inr r1 e1 show ?thesis
        by (auto simp: r_def Let_def Let_def)
    next
      case OkStatus
      with Cons.prems Inr r1 have rec: "SyncCheckpointWithChunks_loop names k s1 = (st, s')"
        by (simp add: r_def Let_def Let_def)
      note ih = Cons.IH[OF rec]
      have m1: "map_of (files s) ?unc \<noteq> None \<and>
        map_of (files s1) = (if i \<le> k then ((map_of (files s))(?unc := None))(?com := map_of (files s) ?unc)
                             else (map_of (files s))(?unc := None))"
      proof (cases "i \<le> k")
        case True
        with r1 OkStatus have "RenameFile ?unc ?com s = (OkStatus, s1)" by (simp add: r_def)
        from RenameFile_cases(2)[OF this refl] show ?thesis
          using True by (auto simp: map_of_update map_of_delete)
      next
        case False
        with r1 OkStatus have "DeleteFile ?unc s = (OkStatus, s1)" by (simp add: r_def)
        from DeleteFile_cases(2)[OF this refl] show ?thesis
          using False by (auto simp: map_of_delete)
      qed
      have "env_step s s'" using e1 ih[THEN conjunct1] by (rule env_step_trans)
      moreover have "(\<forall>n \<in> set (name # names). \<exists>i. GetFileIndex n ''chunk'' = Inr i \<and>
           map_of (files s) (UncommittedChunksDirectory, n) \<noteq> None \<and>
           map_of (files s') (UncommittedChunksDirectory, n) = None \<and>
           map_of (files s') (CommittedChunksDirectory, n) =
             (if i \<le> k then map_of (files s) (UncommittedChunksDirectory, n)
              else map_of (files s) (CommittedChunksDirectory, n))) \<and>
        (\<forall>dir n. n \<notin> set (name # names) \<or> (dir \<noteq> UncommittedChunksDirectory \<and> dir \<noteq> CommittedChunksDirectory) \<longrightarrow>
           map_of (files s') (dir, n) = map_of (files s) (dir, n))"
        if ok: "st = OkStatus" and d: "distinct (name # names)"
      proof -
        from d have nn: "name \<notin> set names" and dn: "distinct names" by simp_all
        note ab = ih[THEN conjunct2, THEN mp, THEN mp, OF ok dn]
        note a = ab[THEN conjunct1]
        note b' = ab[THEN conjunct2]
        have other: "map_of (files s1) (dir, n) = map_of (files s) (dir, n)"
          if "n \<noteq> name \<or> (dir \<noteq> UncommittedChunksDirectory \<and> dir \<noteq> CommittedChunksDirectory)" for dir n
        proof (cases "i \<le> k")
          case True
          with m1 have "map_of (files s1) = ((map_of (files s))(?unc := None))(?com := map_of (files s) ?unc)"
            by simp
          with that show ?thesis by auto
        next
          case False
          with m1 have "map_of (files s1) = (map_of (files s))(?unc := None)" by simp
          with that show ?thesis by auto
        qed
        have head: "map_of (files s') (UncommittedChunksDirectory, name) = None \<and>
           map_of (files s') (CommittedChunksDirectory, name) =
             (if i \<le> k then map_of (files s) (UncommittedChunksDirectory, name)
              else map_of (files s) (CommittedChunksDirectory, name))"
        proof -
          from b'[THEN spec, THEN spec, of name UncommittedChunksDirectory] nn
          have "map_of (files s') (UncommittedChunksDirectory, name) = map_of (files s1) (UncommittedChunksDirectory, name)"
            by simp
          moreover from b'[THEN spec, THEN spec, of name CommittedChunksDirectory] nn
          have "map_of (files s') (CommittedChunksDirectory, name) = map_of (files s1) (CommittedChunksDirectory, name)"
            by simp
          ultimately show ?thesis using m1 by simp
        qed
        have tail: "\<exists>i. GetFileIndex n ''chunk'' = Inr i \<and>
           map_of (files s) (UncommittedChunksDirectory, n) \<noteq> None \<and>
           map_of (files s') (UncommittedChunksDirectory, n) = None \<and>
           map_of (files s') (CommittedChunksDirectory, n) =
             (if i \<le> k then map_of (files s) (UncommittedChunksDirectory, n)
              else map_of (files s) (CommittedChunksDirectory, n))" if "n \<in> set names" for n
        proof -
          from that nn have "n \<noteq> name" by auto
          with a[THEN bspec, OF that] other[of n UncommittedChunksDirectory]
            other[of n CommittedChunksDirectory] show ?thesis by auto
        qed
        have frame: "map_of (files s') (dir, n) = map_of (files s) (dir, n)"
          if "n \<notin> set (name # names) \<or> (dir \<noteq> UncommittedChunksDirectory \<and> dir \<noteq> CommittedChunksDirectory)" for dir n
        proof -
          from that have "map_of (files s') (dir, n) = map_of (files s1) (dir, n)"
            using b'[THEN spec, THEN spec, of n dir] by auto
          also from that have "\<dots> = map_of (files s) (dir, n)" by (intro other) auto
          finally show ?thesis .
        qed
        have first: "\<exists>i. GetFileIndex name ''chunk'' = Inr i \<and>
           map_of (files s) (UncommittedChunksDirectory, name) \<noteq> None \<and>
           map_of (files s') (UncommittedChunksDirectory, name) = None \<and>
           map_of (files s') (CommittedChunksDirectory, name) =
             (if i \<le> k then map_of (files s) (UncommittedChunksDirectory, name)
              else map_of (files s) (CommittedChunksDirectory, name))"
          using head Inr m1 by simp
        show ?thesis
        proof (intro conjI ballI allI impI)
          fix n assume mem: "n \<in> set (name # names)"
          show "\<exists>i. GetFileIndex n ''chunk'' = Inr i \<and>
           map_of (files s) (UncommittedChunksDirectory, n) \<noteq> None \<and>
           map_of (files s') (UncommittedChunksDirectory, n) = None \<and>
           map_of (files s') (CommittedChunksDirectory, n) =
             (if i \<le> k then map_of (files s) (UncommittedChunksDirectory, n)
              else map_of (files s) (CommittedChunksDirectory, n))"
          proof (cases "n = name")
            case True
            with first show ?thesis by blast
          next
            case False
            with mem have "n \<in> set names" by simp
            then show ?thesis by (rule tail)
          qed
        next
          fix dir n
          assume "n \<notin> set (name # names) \<or> (dir \<noteq> UncommittedChunksDirectory \<and> dir \<noteq> CommittedChunksDirectory)"
          then show "map_of (files s') (dir, n) = map_of (files s) (dir, n)" by (rule frame)
        qed
      qed
      ultimately show ?thesis by blast
    qed
  qed
qed

lemma SyncCheckpointWithChunks_cases:
  assumes "SyncCheckpointWithChunks k s = (st, s')"
  shows "env_step s s'"
    and "st = OkStatus \<Longrightarrow>
        (\<forall>n. map_of (files s) (UncommittedChunksDirectory, n) \<noteq> None \<longrightarrow>
           (\<exists>i. GetFileIndex n ''chunk'' = Inr i \<and>
              map_of (files s') (UncommittedChunksDirectory, n) = None \<and>
              map_of (files s') (CommittedChunksDirectory, n) =
                (if i \<le> k then map_of (files s) (UncommittedChunksDirectory, n)
                 else map_of (files s) (CommittedChunksDirectory, n)))) \<and>
        (\<forall>dir n. map_of (files s) (UncommittedChunksDirectory, n) = None \<or>
                 (dir \<noteq> UncommittedChunksDirectory \<and> dir \<noteq> CommittedChunksDirectory) \<longrightarrow>
           map_of (files s') (dir, n) = map_of (files s) (dir, n))"
proof -
  from assms have "TF_ASSIGN_OR_RETURN (GetChildren UncommittedChunksDirectory s)
      (\<lambda>uncommitted_chunks s1. SyncCheckpointWithChunks_loop uncommitted_chunks k s1) = (st, s')"
    by (simp add: SyncCheckpointWithChunks_def)
  then have "env_step s s' \<and> (st = OkStatus \<longrightarrow>
        (\<forall>n. map_of (files s) (UncommittedChunksDirectory, n) \<noteq> None \<longrightarrow>
           (\<exists>i. GetFileIndex n ''chunk'' = Inr i \<and>
              map_of (files s') (UncommittedChunksDirectory, n) = None \<and>
              map_of (files s') (CommittedChunksDirectory, n) =
                (if i \<le> k then map_of (files s) (UncommittedChunksDirectory, n)
                 else map_of (files s) (CommittedChunksDirectory, n)))) \<and>
        (\<forall>dir n. map_of (files s) (UncommittedChunksDirectory, n) = None \<or>
                 (dir \<noteq> UncommittedChunksDirectory \<and> dir \<noteq> CommittedChunksDirectory) \<longrightarrow>
           map_of (files s') (dir, n) = map_of (files s) (dir, n)))"
  proof (cases rule: TF_ASSIGN_OR_RETURN_E)
    case (failed c)
    from GetChildren_cases[OF failed(1)] failed(2) show ?thesis by simp
  next
    case (passed names s1)
    note g = GetChildren_cases[OF passed(1)]
    then have names: "names = children UncommittedChunksDirectory (files s)"
      and f1: "files s1 = files s" and e1: "env_step s s1" by simp_all
    note l = SyncCheckpointWithChunks_loop_all[OF passed(2)]
    have mem: "n \<in> set names \<longleftrightarrow> map_of (files s) (UncommittedChunksDirectory, n) \<noteq> None" for n
      by (simp add: names children_iff)
    have d: "distinct names" by (simp add: names)
    have "env_step s s'" using e1 l[THEN conjunct1] by (rule env_step_trans)
    moreover have "(\<forall>n. map_of (files s) (UncommittedChunksDirectory, n) \<noteq> None \<longrightarrow>
           (\<exists>i. GetFileIndex n ''chunk'' = Inr i \<and>
              map_of (files s') (UncommittedChunksDirectory, n) = None \<and>
              map_of (files s') (CommittedChunksDirectory, n) =
                (if i \<le> k then map_of (files s) (UncommittedChunksDirectory, n)
                 else map_of (files s) (CommittedChunksDirectory, n)))) \<and>
        (\<forall>dir n. map_of (files s) (UncommittedChunksDirectory, n) = None \<or>
                 (dir \<noteq> UncommittedChunksDirectory \<and> dir \<noteq> CommittedChunksDirectory) \<longrightarrow>
           map_of (files s') (dir, n) = map_of (files s) (dir, n))" if ok: "st = OkStatus"
    proof (intro conjI allI impI)
      note ab = l[THEN conjunct2, THEN mp, THEN mp, OF ok d]
      fix n
      assume "map_of (files s) (UncommittedChunksDirectory, n) \<noteq> None"
      then have "n \<in> set names" by (simp add: mem)
      from ab[THEN conjunct1, THEN bspec, OF this] obtain i where
        "GetFileIndex n ''chunk'' = Inr i \<and>
           map_of (files s1) (UncommittedChunksDirectory, n) \<noteq> None \<and>
           map_of (files s') (UncommittedChunksDirectory, n) = None \<and>
           map_of (files s') (CommittedChunksDirectory, n) =
             (if i \<le> k then map_of (files s1) (UncommittedChunksDirectory, n)
              else map_of (files s1) (CommittedChunksDirectory, n))" by blast
      then have "GetFileIndex n ''chunk'' = Inr i \<and>
              map_of (files s') (UncommittedChunksDirectory, n) = None \<and>
              map_of (files s') (CommittedChunksDirectory, n) =
                (if i \<le> k then map_of (files s) (UncommittedChunksDirectory, n)
                 else map_of (files s) (CommittedChunksDirectory, n))"
        by (simp add: f1)
      then show "\<exists>i. GetFileIndex n ''chunk'' = Inr i \<and>
              map_of (files s') (UncommittedChunksDirectory, n) = None \<and>
              map_of (files s') (CommittedChunksDirectory, n) =
                (if i \<le> k then map_of (files s) (UncommittedChunksDirectory, n)
                 else map_of (files s) (CommittedChunksDirectory, n))" ..
    next
      note ab = l[THEN conjunct2, THEN mp, THEN mp, OF ok d]
      fix dir n
      assume "map_of (files s) (UncommittedChunksDirectory, n) = None \<or>
                 (dir \<noteq> UncommittedChunksDirectory \<and> dir \<noteq> CommittedChunksDirectory)"
      then have "n \<notin> set names \<or> (dir \<noteq> UncommittedChunksDirectory \<and> dir \<noteq> CommittedChunksDirectory)"
        by (simp add: mem)
      with ab[THEN conjunct2, THEN spec, THEN spec, of n dir]
      show "map_of (files s') (dir, n) = map_of (files s) (dir, n)" by (simp add: f1)
    qed
    ultimately show ?thesis by blast
  qed
  then show "env_step s s'"
    and "st = OkStatus \<Longrightarrow>
        (\<forall>n. map_of (files s) (UncommittedChunksDirectory, n) \<noteq> None \<longrightarrow>
           (\<exists>i. GetFileIndex n ''chunk'' = Inr i \<and>
              map_of (files s') (UncommittedChunksDirectory, n) = None \<and>
              map_of (files s') (CommittedChunksDirectory, n) =
                (if i \<le> k then map_of (files s) (UncommittedChunksDirectory, n)
                 else map_of (files s) (CommittedChunksDirectory, n)))) \<and>
        (\<forall>dir n. map_of (files s) (UncommittedChunksDirectory, n) = None \<or>
                 (dir \<noteq> UncommittedChunksDirectory \<and> dir \<noteq> CommittedChunksDirectory) \<longrightarrow>
           map_of (files s') (dir, n) = map_of (files s) (dir, n))"
    by blast+
qed

lemma LastCheckpointIndex_cases:
  assumes "LastCheckpointIndex s = (r, s1)"
  shows "env_step s s1 \<and> files s1 = files s \<and> history s1 = history s"
    and "fault s = None \<Longrightarrow> s1 = s \<and>
      r = (if children CheckpointsDirectory (files s) = [] then Inl NOT_FOUND
           else LastCheckpointIndex_loop (children CheckpointsDirectory (files s)) 0)"
proof -
  obtain g s0 where g: "GetChildren CheckpointsDirectory s = (g, s0)"
    by (cases "GetChildren CheckpointsDirectory s")
  note c = GetChildren_cases[OF g]
  from assms g c show "env_step s s1 \<and> files s1 = files s \<and> history s1 = history s"
    by (cases g) (auto simp: LastCheckpointIndex_def split: if_splits)
  assume "fault s = None"
  then have "GetChildren CheckpointsDirectory s = (Inr (children CheckpointsDirectory (files s)), s)"
    by (simp add: GetChildren_def)
  with assms show "s1 = s \<and>
      r = (if children CheckpointsDirectory (files s) = [] then Inl NOT_FOUND
           else LastCheckpointIndex_loop (children CheckpointsDirectory (files s)) 0)"
    by (auto simp: LastCheckpointIndex_def)
qed

lemma LastCheckpointIndex_loop_Inr:
  assumes "\<forall>n \<in> set names. \<exists>i. GetFileIndex n ''checkpoint'' = Inr i"
  shows "LastCheckpointIndex_loop names last_index =
    Inr (Max (insert last_index {i. \<exists>n \<in> set names. GetFileIndex n ''checkpoint'' = Inr i}))"
  using assms
proof (induction names arbitrary: last_index)
  case Nil
  then show ?case by simp
next
  case (Cons name names)
  then obtain i where i: "GetFileIndex name ''checkpoint'' = Inr i" by auto
  let ?S = "{i. \<exists>n \<in> set names. GetFileIndex n ''checkpoint'' = Inr i}"
  have fin: "finite ?S"
  proof -
    have "?S \<subseteq> (\<lambda>n. projr (GetFileIndex n ''checkpoint'')) ` set names" by force
    then show ?thesis by (rule finite_subset) simp
  qed
  have S: "{j. \<exists>n \<in> set (name # names). GetFileIndex n ''checkpoint'' = Inr j} = insert i ?S"
    using i by auto
  from Cons.prems have "\<forall>n \<in> set names. \<exists>i. GetFileIndex n ''checkpoint'' = Inr i" by simp
  from Cons.IH[OF this, of "max last_index i"] i
  have "LastCheckpointIndex_loop (name # names) last_index = Inr (Max (insert (max last_index i) ?S))"
    by simp
  also have "Max (insert (max last_index i) ?S) = Max (insert last_index (insert i ?S))"
    using fin by (cases "?S = {}") (simp_all add: max.assoc max.commute max.left_commute)
  finally show ?case by (simp only: S)
qed

lemma LastCheckpointIndex_loop_ge:
  "LastCheckpointIndex_loop names last_index = Inr k \<Longrightarrow> last_index \<le> k"
proof (induction names arbitrary: last_index)
  case Nil
  then show ?case by simp
next
  case (Cons name names)
  show ?case
  proof (cases "GetFileIndex name ''checkpoint''")
    case (Inl e)
    with Cons.prems show ?thesis by simp
  next
    case (Inr i)
    with Cons.prems have "LastCheckpointIndex_loop names (max last_index i) = Inr k" by simp
    from Cons.IH[OF this] show ?thesis by simp
  qed
qed

lemma LastCheckpointIndex_nonneg:
  assumes "fst (LastCheckpointIndex s) = Inr k"
  shows "0 \<le> k"
proof -
  obtain r s1 where g: "GetChildren CheckpointsDirectory s = (r, s1)"
    by (cases "GetChildren CheckpointsDirectory s")
  show ?thesis
  proof (cases r)
    case (Inl c)
    with assms g show ?thesis by (simp add: LastCheckpointIndex_def)
  next
    case (Inr names)
    with assms g have "names \<noteq> []" "LastCheckpointIndex_loop names 0 = Inr k"
      by (auto simp: LastCheckpointIndex_def split: if_splits)
    from LastCheckpointIndex_loop_ge[OF this(2)] show ?thesis .
  qed
qed

lemma LastCheckpointIndex_loop_Inl:
  assumes "LastCheckpointIndex_loop names last_index = Inl c"
  shows "c = INTERNAL \<and> (\<exists>n \<in> set names. GetFileIndex n ''checkpoint'' = Inl INTERNAL)"
  using assms
proof (induction names arbitrary: last_index)
  case Nil
  then show ?case by simp
next
  case (Cons name names)
  show ?case
  proof (cases "GetFileIndex name ''checkpoint''")
    case (Inl e)
    with Cons.prems GetFileIndex_Inl[OF Inl] show ?thesis by simp
  next
    case (Inr i)
    with Cons.prems have "LastCheckpointIndex_loop names (max last_index i) = Inl c" by simp
    from Cons.IH[OF this] show ?thesis by simp
  qed
qed

lemma quiet_refl [simp]: "quiet s s"
  by (simp add: quiet_def)

lemma quiet_trans: "quiet s s1 \<Longrightarrow> quiet s1 s2 \<Longrightarrow> quiet s s2"
  by (simp add: quiet_def)

lemma quiet_env_step: "env_step s s' \<Longrightarrow> quiet s s'"
  by (simp add: quiet_def env_step_iff)

lemma quiet_lock_rel: "quiet s s' \<Longrightarrow> lock_rel s s'"
  by (simp add: quiet_def lock_rel_quiet)

lemma Restore_not_found:
  assumes "Restore s = (st, s')" and "fst (LastCheckpointIndex s) = Inl c"
  shows "env_step s s' \<and> files s' = files s \<and> history s' = history s \<and>
    st = (if c = NOT_FOUND then OkStatus else Error c)"
proof -
  obtain s1 where l: "LastCheckpointIndex s = (Inl c, s1)"
    using assms(2) by (cases "LastCheckpointIndex s") auto
  from LastCheckpointIndex_cases(1)[OF l] assms(1) l show ?thesis
    by (cases c) (auto simp: Restore_def)
qed

lemma Restore_found:
  assumes "Restore s = (st, s')" and "fst (LastCheckpointIndex s) = Inr k"
  shows "quiet s s' \<and> chunk_size_bytes s' = chunk_size_bytes s \<and> end_of_sequence s' = end_of_sequence s"
    and "st = OkStatus \<Longrightarrow> chunk_index s' = int64_t (k + 1) \<and>
        map_of (files s) (CheckpointPath k) = Some [Variant (cursor s')] \<and>
        (\<forall>n. map_of (files s) (UncommittedChunksDirectory, n) \<noteq> None \<longrightarrow>
           (\<exists>i. GetFileIndex n ''chunk'' = Inr i \<and>
              map_of (files s') (UncommittedChunksDirectory, n) = None \<and>
              map_of (files s') (CommittedChunksDirectory, n) =
                (if i \<le> k then map_of (files s) (UncommittedChunksDirectory, n)
                 else map_of (files s) (CommittedChunksDirectory, n)))) \<and>
        (\<forall>dir n. map_of (files s) (UncommittedChunksDirectory, n) = None \<or>
                 (dir \<noteq> UncommittedChunksDirectory \<and> dir \<noteq> CommittedChunksDirectory) \<longrightarrow>
           map_of (files s') (dir, n) = map_of (files s) (dir, n))"
    and "st \<noteq> OkStatus \<Longrightarrow> chunk_index s' = chunk_index s"
    and "length (file_contents (files s) (CheckpointPath k)) \<noteq> 1 \<Longrightarrow>
        st \<noteq> OkStatus \<and> cursor s' = cursor s \<and> files s' = files s \<and> history s' = history s"
proof -
  define A where "A \<longleftrightarrow> quiet s s' \<and> chunk_size_bytes s' = chunk_size_bytes s \<and>
    end_of_sequence s' = end_of_sequence s"
  define B where "B \<longleftrightarrow> chunk_index s' = int64_t (k + 1) \<and>
        map_of (files s) (CheckpointPath k) = Some [Variant (cursor s')] \<and>
        (\<forall>n. map_of (files s) (UncommittedChunksDirectory, n) \<noteq> None \<longrightarrow>
           (\<exists>i. GetFileIndex n ''chunk'' = Inr i \<and>
              map_of (files s') (UncommittedChunksDirectory, n) = None \<and>
              map_of (files s') (CommittedChunksDirectory, n) =
                (if i \<le> k then map_of (files s) (UncommittedChunksDirectory, n)
                 else map_of (files s) (CommittedChunksDirectory, n)))) \<and>
        (\<forall>dir n. map_of (files s) (UncommittedChunksDirectory, n) = None \<or>
                 (dir \<noteq> UncommittedChunksDirectory \<and> dir \<noteq> CommittedChunksDirectory) \<longrightarrow>
           map_of (files s') (dir, n) = map_of (files s) (dir, n))"
  define D where "D \<longleftrightarrow> cursor s' = cursor s \<and> files s' = files s \<and> history s' = history s"
  define goal where "goal \<longleftrightarrow> A \<and> (st = OkStatus \<longrightarrow> B) \<and>
    (st \<noteq> OkStatus \<longrightarrow> chunk_index s' = chunk_index s) \<and>
    (length (file_contents (files s) (CheckpointPath k)) \<noteq> 1 \<longrightarrow> st \<noteq> OkStatus \<and> D)"
  text \<open>a failure before the position of the source is restored\<close>
  have early: goal if "env_step s s'" "files s' = files s" "history s' = history s" "st \<noteq> OkStatus"
    using that by (simp add: goal_def A_def D_def quiet_env_step env_step_iff)
  obtain s1 where l: "LastCheckpointIndex s = (Inr k, s1)"
    using assms(2) by (cases "LastCheckpointIndex s") auto
  note lc = LastCheckpointIndex_cases(1)[OF l]
  from assms(1) l have
    "TF_RETURN_IF_ERROR (TFRecordReader_Initialize (CheckpointPath k) s1) (\<lambda>s2.
       TF_ASSIGN_OR_RETURN (TFRecordReader_ReadTensors (CheckpointPath k) s2) (\<lambda>serialized_tensors s3.
         if length serialized_tensors \<noteq> 1 then (Error INTERNAL, s3)
         else
           TF_RETURN_IF_ERROR (TaskIterator_Restore (serialized_tensors ! 0) s3) (\<lambda>s4.
           TF_RETURN_IF_ERROR (SyncCheckpointWithChunks k s4) (\<lambda>s5.
             (OkStatus, s5\<lparr>chunk_index := int64_t (k + 1)\<rparr>))))) = (st, s')"
    by (simp add: Restore_def Let_def)
  then have goal
  proof (cases rule: TF_RETURN_IF_ERROR_E)
    case (failed c)
    note i = TFRecordReader_Initialize_cases[OF failed(1)]
    show ?thesis
      using i(1) lc failed(2) by (intro early) (auto intro: env_step_trans)
  next
    case (passed s2)
    note i = TFRecordReader_Initialize_cases[OF passed(1)]
    have e2: "env_step s s2" "files s2 = files s" "history s2 = history s"
      using i(1) lc by (auto intro: env_step_trans)
    have present: "map_of (files s) (CheckpointPath k) \<noteq> None" using i(2) lc by simp
    from passed(2) show ?thesis
    proof (cases rule: TF_ASSIGN_OR_RETURN_E)
      case (failed c)
      note rd = TFRecordReader_ReadTensors_cases[OF failed(1)]
      show ?thesis
        using rd e2 failed(2) by (intro early) (auto intro: env_step_trans)
    next
      case (passed ts s3)
      note rd = TFRecordReader_ReadTensors_cases[OF passed(1)]
      have e3: "env_step s s3" "files s3 = files s" "history s3 = history s"
        using rd e2 by (auto intro: env_step_trans)
      have ts: "ts = file_contents (files s) (CheckpointPath k)" using rd e2 by simp
      show ?thesis
      proof (cases "length ts = 1")
        case False
        with passed(2) have "st = Error INTERNAL" "s' = s3" by simp_all
        with e3 show ?thesis by (intro early) simp_all
      next
        case True
        then obtain t where t: "ts = [t]" by (cases ts) simp_all
        with ts present have cfile: "map_of (files s) (CheckpointPath k) = Some [t]"
          by (auto simp: file_contents_def)
        have single: "length (file_contents (files s) (CheckpointPath k)) = 1" using ts True by simp
        from passed(2) t have
          "TF_RETURN_IF_ERROR (TaskIterator_Restore t s3) (\<lambda>s4.
           TF_RETURN_IF_ERROR (SyncCheckpointWithChunks k s4) (\<lambda>s5.
             (OkStatus, s5\<lparr>chunk_index := int64_t (k + 1)\<rparr>))) = (st, s')"
          by simp
        then show ?thesis
        proof (cases rule: TF_RETURN_IF_ERROR_E)
          case (failed c)
          note it = TaskIterator_Restore_cases[OF failed(1)]
          from it e3 failed(2) single show ?thesis
            by (simp add: goal_def A_def quiet_def env_step_iff)
        next
          case (passed s4)
          note it = TaskIterator_Restore_cases[OF passed(1)]
          have q4: "quiet s s4" "chunk_size_bytes s4 = chunk_size_bytes s"
            "end_of_sequence s4 = end_of_sequence s" "chunk_index s4 = chunk_index s"
            "files s4 = files s"
            using it e3 by (simp_all add: quiet_def env_step_iff)
          have t': "t = Variant (cursor s4)" using it(12) by simp
          from passed(2) show ?thesis
          proof (cases rule: TF_RETURN_IF_ERROR_E)
            case (failed c)
            note sy = SyncCheckpointWithChunks_cases(1)[OF failed(1)]
            from sy q4 failed(2) single show ?thesis
              by (simp add: goal_def A_def quiet_def env_step_iff)
          next
            case (passed s5)
            note sy = SyncCheckpointWithChunks_cases[OF passed(1)]
            from passed(2) have st: "st = OkStatus" and s': "s' = s5\<lparr>chunk_index := int64_t (k + 1)\<rparr>"
              by simp_all
            have A using sy(1) q4 s' by (simp add: A_def quiet_def env_step_iff)
            moreover have B
            proof -
              have f': "files s' = files s5" using s' by simp
              have c': "cursor s' = cursor s4" using s' sy(1) by (simp add: env_step_iff)
              have "chunk_index s' = int64_t (k + 1)" using s' by simp
              moreover have "map_of (files s) (CheckpointPath k) = Some [Variant (cursor s')]"
                using cfile t' c' by simp
              ultimately show ?thesis
                unfolding B_def f' using sy(2)[OF refl, unfolded q4(5)] by (intro conjI) blast+
            qed
            ultimately show ?thesis using st single by (simp add: goal_def)
          qed
        qed
      qed
    qed
  qed
  then show "quiet s s' \<and> chunk_size_bytes s' = chunk_size_bytes s \<and> end_of_sequence s' = end_of_sequence s"
    and "st = OkStatus \<Longrightarrow> chunk_index s' = int64_t (k + 1) \<and>
        map_of (files s) (CheckpointPath k) = Some [Variant (cursor s')] \<and>
        (\<forall>n. map_of (files s) (UncommittedChunksDirectory, n) \<noteq> None \<longrightarrow>
           (\<exists>i. GetFileIndex n ''chunk'' = Inr i \<and>
              map_of (files s') (UncommittedChunksDirectory, n) = None \<and>
              map_of (files s') (CommittedChunksDirectory, n) =
                (if i \<le> k then map_of (files s) (UncommittedChunksDirectory, n)
                 else map_of (files s) (CommittedChunksDirectory, n)))) \<and>
        (\<forall>dir n. map_of (files s) (UncommittedChunksDirectory, n) = None \<or>
                 (dir \<noteq> UncommittedChunksDirectory \<and> dir \<noteq> CommittedChunksDirectory) \<longrightarrow>
           map_of (files s') (dir, n) = map_of (files s) (dir, n))"
    and "st \<noteq> OkStatus \<Longrightarrow> chunk_index s' = chunk_index s"
    and "length (file_contents (files s) (CheckpointPath k)) \<noteq> 1 \<Longrightarrow>
        st \<noteq> OkStatus \<and> cursor s' = cursor s \<and> files s' = files s \<and> history s' = history s"
    unfolding goal_def A_def B_def D_def by blast+
qed

lemma InitializeDirectories_no_fault [simp]: "fault s = None \<Longrightarrow> InitializeDirectories s = (OkStatus, s)"
  by (simp add: InitializeDirectories_def RecursivelyCreateDir_def TF_RETURN_IF_ERROR_def)

lemma InitializeDirectories_cases:
  assumes "InitializeDirectories s = (st, s')"
  shows "env_step s s' \<and> files s' = files s \<and> history s' = history s"
proof -
  from assms have "TF_RETURN_IF_ERROR (RecursivelyCreateDir UncommittedChunksDirectory s) (\<lambda>s1.
     TF_RETURN_IF_ERROR (RecursivelyCreateDir CheckpointsDirectory s1) (\<lambda>s2. (OkStatus, s2))) = (st, s')"
    by (simp add: InitializeDirectories_def)
  then show ?thesis
  proof (cases rule: TF_RETURN_IF_ERROR_E)
    case (failed c)
    from RecursivelyCreateDir_cases[OF failed(1)] show ?thesis .
  next
    case (passed s1)
    note a = RecursivelyCreateDir_cases[OF passed(1)]
    from passed(2) show ?thesis
    proof (cases rule: TF_RETURN_IF_ERROR_E)
      case (failed c)
      from RecursivelyCreateDir_cases[OF failed(1)] a show ?thesis
        by (auto intro: env_step_trans)
    next
      case (passed s2)
      from RecursivelyCreateDir_cases[OF passed(1)] a passed(2) show ?thesis
        by (auto intro: env_step_trans)
    qed
  qed
qed

lemma Restore_malformed_no_fault:
  assumes "fault s = None" "fst (LastCheckpointIndex s) = Inr k"
    "map_of (files s) (CheckpointPath k) = Some payload" "length payload \<noteq> 1"
  shows "Restore s = (Error INTERNAL, s)"
proof -
  obtain r s1 where l: "LastCheckpointIndex s = (r, s1)" by (cases "LastCheckpointIndex s")
  from LastCheckpointIndex_cases(2)[OF l assms(1)] assms(2) l
  have l': "LastCheckpointIndex s = (Inr k, s)" by simp
  have i: "TFRecordReader_Initialize (CheckpointPath k) s = (OkStatus, s)"
    using assms(1,3) by (simp add: TFRecordReader_Initialize_def TF_RETURN_IF_ERROR_def)
  have rd: "TFRecordReader_ReadTensors (CheckpointPath k) s = (Inr payload, s)"
    using assms(1,3) by (simp add: TFRecordReader_ReadTensors_def file_contents_def)
  show ?thesis
    using l' i rd assms(4)
    by (simp add: Restore_def Let_def TF_RETURN_IF_ERROR_def TF_ASSIGN_OR_RETURN_def)
qed

subsection \<open>The status across the whole run\<close>

lemma CommitChunk_quiet:
  assumes "CommitChunk p s = (st, s')"
  shows "quiet (mutex_lock s) s'"
proof -
  define s1 where "s1 = mutex_lock s"
  define b where "b = (\<not> end_of_sequence s1 \<and> ok (status s1))"
  have sh: "ShouldSave s = (b, s1)" by (simp add: ShouldSave_def Let_def s1_def b_def)
  define r where "r = (if b then Save s1 else (OkStatus, s1))"
  have r: "(case ShouldSave s of (True, s1) \<Rightarrow> Save s1 | (False, s1) \<Rightarrow> (OkStatus, s1)) = r"
    by (simp add: sh r_def)
  obtain st2 s2 where r2: "r = (st2, s2)" by (cases r)
  have "env_step s1 s2"
  proof (cases b)
    case True
    with r2 have "Save s1 = (st2, s2)" by (simp add: r_def)
    then show ?thesis by (rule Save_cases(1))
  next
    case False
    with r2 show ?thesis by (simp add: r_def)
  qed
  then have q2: "quiet s1 s2" by (rule quiet_env_step)
  from assms r r2 have
    "TF_RETURN_IF_ERROR (st2, s2) (\<lambda>s2.
       TF_RETURN_IF_ERROR (RenameFile p (CommittedChunksDirectory, snd p) s2) (\<lambda>s3.
         (OkStatus, s3\<lparr>chunk_index := int64_t (chunk_index s3 + 1), chunk_size_bytes := 0\<rparr>))) = (st, s')"
    by (simp add: CommitChunk_def Let_def)
  then have "quiet s1 s'"
  proof (cases rule: TF_RETURN_IF_ERROR_E)
    case (failed c)
    with q2 show ?thesis by simp
  next
    case (passed s2')
    then have eq: "s2' = s2" by simp
    from passed(2) show ?thesis
    proof (cases rule: TF_RETURN_IF_ERROR_E)
      case (failed c)
      from RenameFile_cases(1)[OF failed(1)] have "quiet s2 s'" unfolding eq by (rule quiet_env_step)
      with q2 show ?thesis by (rule quiet_trans)
    next
      case (passed s3)
      from RenameFile_cases(1)[OF passed(1)] have "quiet s2 s3" unfolding eq by (rule quiet_env_step)
      with q2 have "quiet s1 s3" by (rule quiet_trans)
      with passed(2) show ?thesis by (auto simp: quiet_def)
    qed
  qed
  then show ?thesis by (simp add: s1_def)
qed

lemma CommitChunk_lock_rel:
  assumes "CommitChunk p s = (st, s')"
  shows "lock_rel s s'"
proof -
  from CommitChunk_quiet[OF assms] have "lock_rel (mutex_lock s) s'" by (rule quiet_lock_rel)
  with lock_rel_mutex_lock[of s] show ?thesis by (rule lock_rel_trans)
qed

lemma WriteChunk_lock_rel:
  assumes "WriteChunk s = (st, s')"
  shows "lock_rel s s'"
proof -
  from assms have
    "TF_RETURN_IF_ERROR (TFRecordWriter_Initialize (GetChunkFilePath s) s) (\<lambda>s1.
       TF_RETURN_IF_ERROR (WriteChunk_loop (GetChunkFilePath s) s1) (\<lambda>s2.
       TF_RETURN_IF_ERROR (TFRecordWriter_Close (GetChunkFilePath s) s2) (\<lambda>s3.
         CommitChunk (GetChunkFilePath s) s3))) = (st, s')"
    by (simp add: WriteChunk_def Let_def)
  then show ?thesis
  proof (cases rule: TF_RETURN_IF_ERROR_E)
    case (failed c)
    from TFRecordWriter_Initialize_cases(1)[OF failed(1)] show ?thesis by (rule lock_rel_env_step)
  next
    case (passed s1)
    from TFRecordWriter_Initialize_cases(1)[OF passed(1)] have l1: "lock_rel s s1"
      by (rule lock_rel_env_step)
    from passed(2) show ?thesis
    proof (cases rule: TF_RETURN_IF_ERROR_E)
      case (failed c)
      from l1 WriteChunk_loop_cases(1)[OF failed(1)] show ?thesis by (rule lock_rel_trans)
    next
      case (passed s2)
      from l1 WriteChunk_loop_cases(1)[OF passed(1)] have l2: "lock_rel s s2" by (rule lock_rel_trans)
      from passed(2) show ?thesis
      proof (cases rule: TF_RETURN_IF_ERROR_E)
        case (failed c)
        from TFRecordWriter_Close_cases[OF failed(1)] have "lock_rel s2 s'"
          by (simp add: lock_rel_env_step)
        with l2 show ?thesis by (rule lock_rel_trans)
      next
        case (passed s3)
        from TFRecordWriter_Close_cases[OF passed(1)] have "lock_rel s2 s3"
          by (simp add: lock_rel_env_step)
        with l2 have "lock_rel s s3" by (rule lock_rel_trans)
        then show ?thesis using CommitChunk_lock_rel[OF passed(2)] by (rule lock_rel_trans)
      qed
    qed
  qed
qed

lemma Restore_quiet:
  assumes "Restore s = (st, s')"
  shows "quiet s s'"
proof (cases "fst (LastCheckpointIndex s)")
  case (Inl c)
  from Restore_not_found[OF assms Inl] show ?thesis by (simp add: quiet_env_step)
next
  case (Inr k)
  from Restore_found(1)[OF assms Inr] show ?thesis by simp
qed

lemma WriteSnapshotFn_loop_lock_rel:
  assumes "WriteSnapshotFn_loop s = Some (st, s')"
  shows "lock_rel s s'"
proof -
  have "lock_rel x (snd y)" if "WriteSnapshotFn_loop x = Some y" for x y
  proof (rule WriteSnapshotFn_loop.raw_induct[where P = "\<lambda>x y. lock_rel x (snd y)", OF _ that], goal_cases)
    case (1 loop s r)
    define s1 where "s1 = mutex_lock s"
    define b where "b = (\<not> end_of_sequence s1 \<and> ok (status s1))"
    have sh: "ShouldWriteChunk s = (b, s1)" by (simp add: ShouldWriteChunk_def Let_def s1_def b_def)
    have l1: "lock_rel s s1" by (simp add: s1_def)
    show ?case
    proof (cases b)
      case False
      with 1(2) sh have "r = (OkStatus, s1)" by simp
      with l1 show ?thesis by simp
    next
      case True
      obtain st2 s2 where w: "WriteChunk s1 = (st2, s2)" by (cases "WriteChunk s1")
      from l1 WriteChunk_lock_rel[OF w] have l2: "lock_rel s s2" by (rule lock_rel_trans)
      show ?thesis
      proof (cases "ok st2")
        case False
        with 1(2) sh True w have "r = (st2, s2)" by simp
        with l2 show ?thesis by simp
      next
        case ok: True
        with 1(2) sh True w have "loop s2 = Some r" by simp
        from l2 1(1)[OF this] show ?thesis by (rule lock_rel_trans)
      qed
    qed
  qed
  from this[OF assms] show ?thesis by simp
qed

lemma WriteSnapshotFn_cases:
  assumes "WriteSnapshotFn s = Some (r, s0)"
  shows "lock_rel s s0" and "ok r \<Longrightarrow> status s0 = OkStatus"
proof -
  obtain st1 s1 where i: "InitializeDirectories s = (st1, s1)" by (cases "InitializeDirectories s")
  from InitializeDirectories_cases[OF i] have l1: "lock_rel s s1" by (simp add: lock_rel_env_step)
  obtain st2 s2 where rs: "Restore s1 = (st2, s2)" by (cases "Restore s1")
  from Restore_quiet[OF rs] have "lock_rel s1 s2" by (rule quiet_lock_rel)
  with l1 have l2: "lock_rel s s2" by (rule lock_rel_trans)
  have "lock_rel s s0 \<and> (ok r \<longrightarrow> status s0 = OkStatus)"
  proof (cases st1)
    case (Error c)
    with assms i l1 show ?thesis by (auto simp: WriteSnapshotFn_def)
  next
    case OkStatus
    note o1 = this
    show ?thesis
    proof (cases st2)
      case (Error c)
      with assms i rs o1 l2 show ?thesis by (auto simp: WriteSnapshotFn_def)
    next
      case OkStatus
      note o2 = this
      show ?thesis
      proof (cases "WriteSnapshotFn_loop s2")
        case None
        with assms i rs o1 o2 show ?thesis by (simp add: WriteSnapshotFn_def)
      next
        case (Some p)
        obtain st3 s3 where p: "p = (st3, s3)" by (cases p)
        from WriteSnapshotFn_loop_lock_rel[OF Some[unfolded p]] l2 have l3: "lock_rel s s3"
          by (auto intro: lock_rel_trans)
        show ?thesis
        proof (cases st3)
          case (Error c)
          with assms i rs o1 o2 Some p l3 show ?thesis by (auto simp: WriteSnapshotFn_def)
        next
          case OkStatus
          with assms i rs o1 o2 Some p have "r = status (mutex_lock s3)" "s0 = mutex_lock s3"
            by (auto simp: WriteSnapshotFn_def Let_def)
          moreover have "lock_rel s (mutex_lock s3)"
            using l3 lock_rel_mutex_lock by (rule lock_rel_trans)
          ultimately show ?thesis by (cases "status (mutex_lock s3)") simp_all
        qed
      qed
    qed
  qed
  then show "lock_rel s s0" and "ok r \<Longrightarrow> status s0 = OkStatus" by simp_all
qed

subsection \<open>Termination under cancellation\<close>

lemma locks_left_mutex_lock: "locks_left (mutex_lock s) = locks_left s - 1"
  by (simp add: locks_left_def mutex_lock_def Cancel_def split: option.splits)

lemma locks_left_quiet: "quiet s s' \<Longrightarrow> locks_left s' = locks_left s"
  by (simp add: locks_left_def quiet_def)

lemma locks_left_env_step: "env_step s s' \<Longrightarrow> locks_left s' = locks_left s"
  by (simp add: locks_left_def env_step_iff)

lemma WriteChunk_loop_locks:
  "WriteChunk_loop writer s = (st, s') \<Longrightarrow> locks_left s' \<le> locks_left s"
proof (induction writer s arbitrary: st s' rule: WriteChunk_loop.induct)
  case (1 writer s)
  define s1 where "s1 = mutex_lock s"
  define b where "b = (chunk_size_bytes s1 < max_chunk_size_bytes s1 \<and> \<not> end_of_sequence s1 \<and> ok (status s1))"
  have sh: "ShouldWriteRecord s = (b, s1)" by (simp add: ShouldWriteRecord_def Let_def s1_def b_def)
  have l1: "locks_left s1 \<le> locks_left s" by (simp add: s1_def locks_left_mutex_lock)
  show ?case
  proof (cases b)
    case False
    with "1.prems" sh have "s' = s1" by (simp add: WriteChunk_loop.simps[of writer s])
    with l1 show ?thesis by simp
  next
    case True
    obtain st2 s2 where wr: "WriteRecord writer s1 = (st2, s2)" by (cases "WriteRecord writer s1")
    from WriteRecord_cases(2)[OF wr] have l2: "locks_left s2 = locks_left s1"
      by (simp add: locks_left_def)
    show ?thesis
    proof (cases st2)
      case (Error c)
      with "1.prems" sh True wr have "s' = s2" by (simp add: WriteChunk_loop.simps[of writer s])
      with l1 l2 show ?thesis by simp
    next
      case OkStatus
      with "1.prems" sh True wr have rec: "WriteChunk_loop writer s2 = (st, s')"
        by (simp add: WriteChunk_loop.simps[of writer s])
      from "1.IH"[OF sh[symmetric] True[THEN eqTrueI] wr[symmetric] OkStatus rec] l1 l2
      show ?thesis by simp
    qed
  qed
qed

lemma WriteChunk_locks:
  assumes "WriteChunk s = (st, s')"
  shows "locks_left s' \<le> locks_left s"
proof -
  from assms have
    "TF_RETURN_IF_ERROR (TFRecordWriter_Initialize (GetChunkFilePath s) s) (\<lambda>s1.
       TF_RETURN_IF_ERROR (WriteChunk_loop (GetChunkFilePath s) s1) (\<lambda>s2.
       TF_RETURN_IF_ERROR (TFRecordWriter_Close (GetChunkFilePath s) s2) (\<lambda>s3.
         CommitChunk (GetChunkFilePath s) s3))) = (st, s')"
    by (simp add: WriteChunk_def Let_def)
  then show ?thesis
  proof (cases rule: TF_RETURN_IF_ERROR_E)
    case (failed c)
    from TFRecordWriter_Initialize_cases(1)[OF failed(1)] show ?thesis
      by (simp add: locks_left_env_step)
  next
    case (passed s1)
    from TFRecordWriter_Initialize_cases(1)[OF passed(1)] have l1: "locks_left s1 = locks_left s"
      by (rule locks_left_env_step)
    from passed(2) show ?thesis
    proof (cases rule: TF_RETURN_IF_ERROR_E)
      case (failed c)
      from WriteChunk_loop_locks[OF failed(1)] l1 show ?thesis by simp
    next
      case (passed s2)
      from WriteChunk_loop_locks[OF passed(1)] l1 have l2: "locks_left s2 \<le> locks_left s" by simp
      from passed(2) show ?thesis
      proof (cases rule: TF_RETURN_IF_ERROR_E)
        case (failed c)
        from TFRecordWriter_Close_cases[OF failed(1)] have "locks_left s' = locks_left s2"
          by (simp add: locks_left_env_step)
        with l2 show ?thesis by simp
      next
        case (passed s3)
        from TFRecordWriter_Close_cases[OF passed(1)] have l3: "locks_left s3 = locks_left s2"
          by (simp add: locks_left_env_step)
        from CommitChunk_quiet[OF passed(2)] have "locks_left s' = locks_left (mutex_lock s3)"
          by (rule locks_left_quiet)
        with l2 l3 show ?thesis by (simp add: locks_left_mutex_lock)
      qed
    qed
  qed
qed

lemma WriteSnapshotFn_loop_not_ok:
  assumes "cancel_in s = None" "\<not> ok (status s)"
  shows "WriteSnapshotFn_loop s = Some (OkStatus, s)"
  using assms by (subst WriteSnapshotFn_loop.simps) (simp add: ShouldWriteChunk_def Let_def)

lemma WriteSnapshotFn_loop_pending:
  "cancel_in s \<noteq> None \<Longrightarrow> \<exists>r. WriteSnapshotFn_loop s = Some r"
proof (induction "locks_left s" arbitrary: s rule: less_induct)
  case less
  define s1 where "s1 = mutex_lock s"
  define b where "b = (\<not> end_of_sequence s1 \<and> ok (status s1))"
  have sh: "ShouldWriteChunk s = (b, s1)" by (simp add: ShouldWriteChunk_def Let_def s1_def b_def)
  from less.prems have pos: "0 < locks_left s" by (auto simp: locks_left_def)
  have l1: "locks_left s1 < locks_left s" using pos by (simp add: s1_def locks_left_mutex_lock)
  show ?case
  proof (cases b)
    case False
    with sh show ?thesis by (subst WriteSnapshotFn_loop.simps) simp
  next
    case True
    obtain st s2 where w: "WriteChunk s1 = (st, s2)" by (cases "WriteChunk s1")
    show ?thesis
    proof (cases "ok st")
      case False
      with sh True w show ?thesis by (subst WriteSnapshotFn_loop.simps) simp
    next
      case ok: True
      from sh True w ok have step: "WriteSnapshotFn_loop s = WriteSnapshotFn_loop s2"
        by (subst WriteSnapshotFn_loop.simps) simp
      from WriteChunk_locks[OF w] l1 have l2: "locks_left s2 < locks_left s" by simp
      show ?thesis
      proof (cases "cancel_in s2")
        case (Some m)
        then have "cancel_in s2 \<noteq> None" by simp
        from less.hyps[OF l2 this] step show ?thesis by simp
      next
        case None
        have c1: "cancel_in s1 \<noteq> None"
        proof
          assume "cancel_in s1 = None"
          with True have "status s1 = OkStatus" by (cases "status s1") (simp_all add: b_def)
          moreover from less.prems \<open>cancel_in s1 = None\<close> have "status s1 = Error CANCELLED"
            by (auto simp: s1_def mutex_lock_def Cancel_def split: option.splits if_splits)
          ultimately show False by simp
        qed
        from WriteChunk_lock_rel[OF w] c1 None have "status s2 = Error CANCELLED"
          by (simp add: lock_rel_def)
        then have "\<not> ok (status s2)" by simp
        from WriteSnapshotFn_loop_not_ok[OF None this] step show ?thesis by simp
      qed
    qed
  qed
qed

lemma WriteSnapshotFn_returns:
  assumes "cancel_in s \<noteq> None \<or> status s = Error CANCELLED"
  shows "\<exists>r s0. WriteSnapshotFn s = Some (r, s0)"
proof -
  obtain st1 s1 where i: "InitializeDirectories s = (st1, s1)" by (cases "InitializeDirectories s")
  from InitializeDirectories_cases[OF i] have q1: "quiet s s1" by (simp add: quiet_env_step)
  obtain st2 s2 where rs: "Restore s1 = (st2, s2)" by (cases "Restore s1")
  from q1 Restore_quiet[OF rs] have q2: "quiet s s2" by (rule quiet_trans)
  have "\<exists>r. WriteSnapshotFn_loop s2 = Some r"
  proof (cases "cancel_in s2")
    case None
    with assms q2 have "status s2 = Error CANCELLED" by (simp add: quiet_def)
    then have "\<not> ok (status s2)" by simp
    from WriteSnapshotFn_loop_not_ok[OF None this] show ?thesis by simp
  next
    case (Some n)
    then have "cancel_in s2 \<noteq> None" by simp
    then show ?thesis by (rule WriteSnapshotFn_loop_pending)
  qed
  then obtain r3 s3 where l: "WriteSnapshotFn_loop s2 = Some (r3, s3)" by auto
  show ?thesis
    using i rs l by (cases st1; cases st2; cases r3) (simp_all add: WriteSnapshotFn_def Let_def)
qed

subsection \<open>Runs without failure, and restarting from the files they leave\<close>

lemma no_fault_calls [simp]:
  assumes "fault s = None"
  shows "RecursivelyCreateDir dir s = (OkStatus, s)"
    and "GetChildren dir s = (Inr (children dir (files s)), s)"
    and "RenameFile src target s =
      (case map_of (files s) src of
         None \<Rightarrow> (Error NOT_FOUND, s)
       | Some ts \<Rightarrow> (OkStatus, set_files (AList.update target ts (AList.delete src (files s))) s))"
    and "DeleteFile p s =
      (case map_of (files s) p of
         None \<Rightarrow> (Error NOT_FOUND, s)
       | Some ts \<Rightarrow> (OkStatus, set_files (AList.delete p (files s)) s))"
    and "LocalTempFilename s = (Some (LocalTempDirectory, ''checkpoint''), s)"
    and "TFRecordWriter_Initialize p s = (OkStatus, set_files (AList.update p [] (files s)) s)"
    and "TFRecordWriter_WriteTensors p ts s =
      (OkStatus, set_files (AList.update p (file_contents (files s) p @ ts) (files s)) s)"
    and "TFRecordWriter_Close p s = (OkStatus, s)"
    and "TFRecordReader_Initialize p s =
      (case map_of (files s) p of None \<Rightarrow> (Error NOT_FOUND, s) | Some ts \<Rightarrow> (OkStatus, s))"
    and "TFRecordReader_ReadTensors p s = (Inr (file_contents (files s) p), s)"
    and "TaskIterator_GetNext s =
      (if cursor s < length (elements s)
       then (Inr (elements s ! cursor s), s\<lparr>end_of_sequence := False, cursor := Suc (cursor s)\<rparr>)
       else (Inr [], s\<lparr>end_of_sequence := True\<rparr>))"
    and "TaskIterator_Save s = (Inr (Variant (cursor s)), s)"
    and "TaskIterator_Restore t s =
      (case t of Variant n \<Rightarrow> (OkStatus, s\<lparr>cursor := n\<rparr>) | Data x \<Rightarrow> (Error INVALID_ARGUMENT, s))"
  using assms
  by (simp_all add: RecursivelyCreateDir_def GetChildren_def RenameFile_def DeleteFile_def
      LocalTempFilename_def TFRecordWriter_Initialize_def TFRecordWriter_WriteTensors_def
      TFRecordWriter_Close_def TFRecordReader_Initialize_def TFRecordReader_ReadTensors_def
      TaskIterator_GetNext_def TaskIterator_Save_def TaskIterator_Restore_def TF_RETURN_IF_ERROR_def)

lemma TF_RETURN_IF_ERROR_simps [simp]:
  "TF_RETURN_IF_ERROR (OkStatus, s) k = k s"
  "TF_RETURN_IF_ERROR (Error c, s) k = (Error c, s)"
  by (simp_all add: TF_RETURN_IF_ERROR_def)

lemma TF_ASSIGN_OR_RETURN_simps [simp]:
  "TF_ASSIGN_OR_RETURN (Inr v, s) k = k v s"
  "TF_ASSIGN_OR_RETURN (Inl c, s) k = (Error c, s)"
  by (simp_all add: TF_ASSIGN_OR_RETURN_def)

lemma fill_count_full [simp]: "\<not> z < max_size \<Longrightarrow> fill_count max_size size_of es z = 0"
  by (cases es) simp_all

lemma fill_count_le: "fill_count max_size size_of es z \<le> length es"
  by (induction es arbitrary: z) simp_all

lemma WriteChunk_loop_no_fault:
  assumes "fault s = None" "cancel_in s = None" "status s = OkStatus" "\<not> end_of_sequence s"
    and "map_of (files s) writer = Some c0"
  shows "\<exists>fs hs.
    WriteChunk_loop writer s =
      (OkStatus,
       s\<lparr>chunk_size_bytes := chunk_size_bytes s +
            sum_list (map (estimated_size_bytes s)
              (take (fill_count (max_chunk_size_bytes s) (estimated_size_bytes s)
                       (drop (cursor s) (elements s)) (chunk_size_bytes s))
                 (drop (cursor s) (elements s)))),
         end_of_sequence :=
           (fill_count (max_chunk_size_bytes s) (estimated_size_bytes s)
              (drop (cursor s) (elements s)) (chunk_size_bytes s) = length (drop (cursor s) (elements s)) \<and>
            chunk_size_bytes s +
            sum_list (map (estimated_size_bytes s) (drop (cursor s) (elements s))) < max_chunk_size_bytes s),
         cursor := cursor s + fill_count (max_chunk_size_bytes s) (estimated_size_bytes s)
              (drop (cursor s) (elements s)) (chunk_size_bytes s),
         files := fs, history := history s @ hs\<rparr>) \<and>
    map_of fs = (map_of (files s))(writer \<mapsto>
       c0 @ concat (take (fill_count (max_chunk_size_bytes s) (estimated_size_bytes s)
                       (drop (cursor s) (elements s)) (chunk_size_bytes s))
                 (drop (cursor s) (elements s)))) \<and>
    (\<forall>F \<in> set hs. \<exists>c. map_of F = (map_of (files s))(writer \<mapsto> c))"
  using assms
proof (induction "length (elements s) - cursor s" arbitrary: s c0)
  case 0
  then have d: "drop (cursor s) (elements s) = []" by simp
  have lock: "mutex_lock s = s" using 0 by simp
  show ?case
  proof (cases "chunk_size_bytes s < max_chunk_size_bytes s")
    case False
    with 0 lock have "WriteChunk_loop writer s = (OkStatus, s)"
      by (subst WriteChunk_loop.simps) (simp add: ShouldWriteRecord_def)
    moreover have "map_of (files s) = (map_of (files s))(writer \<mapsto> c0)"
      using 0 by (simp add: fun_upd_idem)
    ultimately show ?thesis using False d 0
      by (intro exI[of _ "files s"] exI[of _ "[]"]) simp
  next
    case True
    from 0 have nl: "\<not> cursor s < length (elements s)" by simp
    let ?s1 = "s\<lparr>end_of_sequence := True\<rparr>"
    from True 0 lock nl have "WriteChunk_loop writer s = WriteChunk_loop writer ?s1"
      by (subst WriteChunk_loop.simps) (simp add: ShouldWriteRecord_def WriteRecord_def)
    also from 0 have "\<dots> = (OkStatus, ?s1)"
      by (subst WriteChunk_loop.simps) (simp add: ShouldWriteRecord_def)
    finally have "WriteChunk_loop writer s = (OkStatus, ?s1)" .
    moreover have "map_of (files s) = (map_of (files s))(writer \<mapsto> c0)"
      using 0 by (simp add: fun_upd_idem)
    ultimately show ?thesis using True d 0
      by (intro exI[of _ "files s"] exI[of _ "[]"]) simp
  qed
next
  case (Suc k)
  then have lt: "cursor s < length (elements s)" by simp
  define e where "e = elements s ! cursor s"
  have d: "drop (cursor s) (elements s) = e # drop (Suc (cursor s)) (elements s)"
    using lt by (simp add: e_def Cons_nth_drop_Suc)
  have lock: "mutex_lock s = s" using Suc.prems by simp
  show ?case
  proof (cases "chunk_size_bytes s < max_chunk_size_bytes s")
    case False
    with Suc.prems lock have "WriteChunk_loop writer s = (OkStatus, s)"
      by (subst WriteChunk_loop.simps) (simp add: ShouldWriteRecord_def)
    moreover have "map_of (files s) = (map_of (files s))(writer \<mapsto> c0)"
      using Suc.prems by (simp add: fun_upd_idem)
    ultimately show ?thesis using False Suc.prems
      by (intro exI[of _ "files s"] exI[of _ "[]"]) simp
  next
    case True
    define f1 where "f1 = AList.update writer (c0 @ e) (files s)"
    define s2 where "s2 = (set_files f1 (s\<lparr>end_of_sequence := False, cursor := Suc (cursor s)\<rparr>))
      \<lparr>chunk_size_bytes := chunk_size_bytes s + estimated_size_bytes s e\<rparr>"
    have c0: "file_contents (files s) writer = c0" using Suc.prems by (simp add: file_contents_def)
    from True Suc.prems lock lt c0 have step: "WriteChunk_loop writer s = WriteChunk_loop writer s2"
      by (subst WriteChunk_loop.simps)
        (simp add: ShouldWriteRecord_def WriteRecord_def s2_def f1_def e_def)
    have k: "k = length (elements s2) - cursor s2" using Suc(2) by (simp add: s2_def)
    have pre: "fault s2 = None" "cancel_in s2 = None" "status s2 = OkStatus" "\<not> end_of_sequence s2"
      "map_of (files s2) writer = Some (c0 @ e)"
      using Suc.prems by (simp_all add: s2_def f1_def map_of_update)
    from Suc(1)[OF k pre] obtain fs hs where
      run: "WriteChunk_loop writer s2 =
      (OkStatus,
       s2\<lparr>chunk_size_bytes := chunk_size_bytes s2 +
            sum_list (map (estimated_size_bytes s2)
              (take (fill_count (max_chunk_size_bytes s2) (estimated_size_bytes s2)
                       (drop (cursor s2) (elements s2)) (chunk_size_bytes s2))
                 (drop (cursor s2) (elements s2)))),
         end_of_sequence :=
           (fill_count (max_chunk_size_bytes s2) (estimated_size_bytes s2)
              (drop (cursor s2) (elements s2)) (chunk_size_bytes s2) = length (drop (cursor s2) (elements s2)) \<and>
            chunk_size_bytes s2 +
            sum_list (map (estimated_size_bytes s2) (drop (cursor s2) (elements s2))) < max_chunk_size_bytes s2),
         cursor := cursor s2 + fill_count (max_chunk_size_bytes s2) (estimated_size_bytes s2)
              (drop (cursor s2) (elements s2)) (chunk_size_bytes s2),
         files := fs, history := history s2 @ hs\<rparr>)"
      and m: "map_of fs = (map_of (files s2))(writer \<mapsto>
       (c0 @ e) @ concat (take (fill_count (max_chunk_size_bytes s2) (estimated_size_bytes s2)
                       (drop (cursor s2) (elements s2)) (chunk_size_bytes s2))
                 (drop (cursor s2) (elements s2))))"
      and h: "\<forall>F \<in> set hs. \<exists>c. map_of F = (map_of (files s2))(writer \<mapsto> c)"
      by blast
    have f2: "map_of (files s2) = (map_of (files s))(writer \<mapsto> c0 @ e)"
      by (simp add: s2_def f1_def map_of_update)
    have h': "\<forall>F \<in> set (f1 # hs). \<exists>c. map_of F = (map_of (files s))(writer \<mapsto> c)"
    proof
      fix F assume "F \<in> set (f1 # hs)"
      then consider "F = f1" | "F \<in> set hs" by auto
      then show "\<exists>c. map_of F = (map_of (files s))(writer \<mapsto> c)"
      proof cases
        case 1
        then show ?thesis by (auto simp: f1_def map_of_update)
      next
        case 2
        with h obtain c where "map_of F = (map_of (files s2))(writer \<mapsto> c)" by blast
        then show ?thesis by (auto simp: f2)
      qed
    qed
    show ?thesis
      apply (rule exI[of _ fs])
      apply (rule exI[of _ "f1 # hs"])
      apply (intro conjI)
      subgoal
        unfolding step run
        using True d
        by (simp add: s2_def add.assoc)
      subgoal
        using m[unfolded f2] True d
        by (simp add: s2_def)
      subgoal
        by (rule h')
      done
  qed
qed

lemma pruned_from_refl [simp]: "pruned_from j F F"
  by (simp add: pruned_from_def)

lemma pruned_from_trans: "pruned_from j F0 F1 \<Longrightarrow> pruned_from j F1 F2 \<Longrightarrow> pruned_from j F0 F2"
  unfolding pruned_from_def by metis

lemma pruned_from_delete:
  "GetFileIndex name ''checkpoint'' = Inr i \<Longrightarrow> i < j \<Longrightarrow>
     pruned_from j F (AList.delete (CheckpointsDirectory, name) F)"
  by (auto simp: pruned_from_def map_of_delete)

lemma DeleteOutdatedCheckpoints_loop_no_fault:
  assumes "fault s = None" "distinct names"
    and "\<forall>n \<in> set names. (\<exists>i. GetFileIndex n ''checkpoint'' = Inr i) \<and>
           map_of (files s) (CheckpointsDirectory, n) \<noteq> None"
  shows "\<exists>s' hs. DeleteOutdatedCheckpoints_loop names s = (OkStatus, s') \<and> fault s' = None \<and>
    history s' = history s @ hs \<and> (\<forall>F \<in> set hs. pruned_from (chunk_index s) (files s) F) \<and>
    pruned_from (chunk_index s) (files s) (files s')"
  using assms
proof (induction names arbitrary: s)
  case Nil
  then show ?case by simp
next
  case (Cons name names)
  from Cons.prems obtain i where i: "GetFileIndex name ''checkpoint'' = Inr i"
    and present: "map_of (files s) (CheckpointsDirectory, name) \<noteq> None" by auto
  show ?case
  proof (cases "i < chunk_index s")
    case False
    from Cons.prems have "\<forall>n \<in> set names. (\<exists>i. GetFileIndex n ''checkpoint'' = Inr i) \<and>
           map_of (files s) (CheckpointsDirectory, n) \<noteq> None" "distinct names" by simp_all
    from Cons.IH[OF Cons.prems(1) this(2) this(1)] i False show ?thesis by simp
  next
    case True
    define f1 where "f1 = AList.delete (CheckpointsDirectory, name) (files s)"
    define s1 where "s1 = set_files f1 s"
    from present Cons.prems(1) have d: "DeleteFile (CheckpointsDirectory, name) s = (OkStatus, s1)"
      by (auto simp: s1_def f1_def)
    have p1: "pruned_from (chunk_index s) (files s) f1"
      unfolding f1_def using i True by (rule pruned_from_delete)
    have pre: "fault s1 = None" "distinct names"
      "\<forall>n \<in> set names. (\<exists>i. GetFileIndex n ''checkpoint'' = Inr i) \<and>
           map_of (files s1) (CheckpointsDirectory, n) \<noteq> None"
      using Cons.prems by (auto simp: s1_def f1_def map_of_delete)
    from Cons.IH[OF pre] obtain s' hs where
      run: "DeleteOutdatedCheckpoints_loop names s1 = (OkStatus, s')" and f: "fault s' = None"
      and h: "history s' = history s1 @ hs" and hs: "\<forall>F \<in> set hs. pruned_from (chunk_index s1) (files s1) F"
      and fin: "pruned_from (chunk_index s1) (files s1) (files s')"
      by blast
    have ci: "chunk_index s1 = chunk_index s" "files s1 = f1" "history s1 = history s @ [f1]"
      by (simp_all add: s1_def)
    have "DeleteOutdatedCheckpoints_loop (name # names) s = (OkStatus, s')"
      using i True d run by simp
    moreover have "history s' = history s @ (f1 # hs)" using h ci by simp
    moreover have "\<forall>F \<in> set (f1 # hs). pruned_from (chunk_index s) (files s) F"
      using hs p1 ci by (auto intro: pruned_from_trans)
    moreover have "pruned_from (chunk_index s) (files s) (files s')"
      using fin p1 ci by (auto intro: pruned_from_trans)
    ultimately show ?thesis using f by blast
  qed
qed

lemma CheckpointPath_parses:
  "0 \<le> j \<Longrightarrow> j \<le> kint64max \<Longrightarrow> GetFileIndex (snd (CheckpointPath j)) ''checkpoint'' = Inr j"
  using GetFileIndex_StrCat[of j "''checkpoint''"] by (simp add: CheckpointPath_def)

lemma Save_no_fault:
  assumes "fault s = None" "0 \<le> chunk_index s" "chunk_index s \<le> kint64max"
    and "\<forall>n. map_of (files s) (CheckpointsDirectory, n) \<noteq> None \<longrightarrow>
           (\<exists>i. GetFileIndex n ''checkpoint'' = Inr i)"
  shows "\<exists>s' hs. Save s = (OkStatus, s') \<and> fault s' = None \<and> history s' = history s @ hs \<and>
    (\<forall>F \<in> set hs. tmp_only (files s) F \<or> saved (chunk_index s) (cursor s) (files s) F) \<and>
    saved (chunk_index s) (cursor s) (files s) (files s')"
proof -
  let ?tmp = "(LocalTempDirectory, ''checkpoint'')"
  let ?j = "chunk_index s"
  let ?ck = "CheckpointPath ?j"
  define f1 where "f1 = AList.update ?tmp [] (files s)"
  define f2 where "f2 = AList.update ?tmp [Variant (cursor s)] f1"
  define f3 where "f3 = AList.update ?ck [Variant (cursor s)] (AList.delete ?tmp f2)"
  define s6 where "s6 = set_files f3 (set_files f2 (set_files f1 s))"
  have ne: "?tmp \<noteq> ?ck" by (simp add: CheckpointPath_def)
  have c1: "file_contents f1 ?tmp = []" by (simp add: f1_def)
  have m2: "map_of f2 ?tmp = Some [Variant (cursor s)]" by (simp add: f2_def map_of_update)
  have sv: "Save s = DeleteOutdatedCheckpoints s6"
    using assms(1) c1 m2
    by (simp add: Save_def Let_def s6_def f3_def f2_def f1_def)
  have t1: "tmp_only (files s) f1" by (simp add: tmp_only_def f1_def map_of_update)
  have t2: "tmp_only (files s) f2" by (simp add: tmp_only_def f2_def f1_def map_of_update)
  have m3: "map_of f3 = ((map_of (files s))(?tmp := None))(?ck \<mapsto> [Variant (cursor s)])"
    by (simp add: f3_def f2_def f1_def map_of_update map_of_delete fun_eq_iff)
  have pk: "GetFileIndex (snd ?ck) ''checkpoint'' = Inr ?j"
    using assms(2,3) by (rule CheckpointPath_parses)
  have ck: "?ck = (CheckpointsDirectory, snd ?ck)" by (simp add: CheckpointPath_def)
  have s3: "saved ?j (cursor s) (files s) f3"
    unfolding saved_def m3 using ne by auto
  have keep: "saved ?j (cursor s) (files s) F" if "pruned_from ?j f3 F" for F
  proof -
    from that[unfolded pruned_from_def, THEN spec, THEN spec, of CheckpointsDirectory "snd ?ck"] pk
    have "map_of F ?ck = map_of f3 ?ck" using ck by auto
    then have a: "map_of F ?ck = Some [Variant (cursor s)]" by (simp add: m3)
    have b: "map_of F (dir, name) = map_of (files s) (dir, name) \<or>
        (map_of F (dir, name) = None \<and> dir = CheckpointsDirectory \<and>
         (\<exists>i. GetFileIndex name ''checkpoint'' = Inr i \<and> i < ?j))"
      if "dir \<noteq> LocalTempDirectory" "(dir, name) \<noteq> ?ck" for dir name
    proof -
      from that have "map_of f3 (dir, name) = map_of (files s) (dir, name)" by (simp add: m3)
      with \<open>pruned_from ?j f3 F\<close>[unfolded pruned_from_def, THEN spec, THEN spec, of dir name]
      show ?thesis by auto
    qed
    from a b show ?thesis unfolding saved_def by blast
  qed
  have f6: "fault s6 = None" "files s6 = f3" "chunk_index s6 = ?j"
    "history s6 = history s @ [f1, f2, f3]"
    using assms(1) by (simp_all add: s6_def)
  let ?names = "children CheckpointsDirectory f3"
  have names: "\<forall>n \<in> set ?names. (\<exists>i. GetFileIndex n ''checkpoint'' = Inr i) \<and>
           map_of (files s6) (CheckpointsDirectory, n) \<noteq> None"
  proof
    fix n assume "n \<in> set ?names"
    then have present: "map_of f3 (CheckpointsDirectory, n) \<noteq> None" by (simp add: children_iff)
    have "\<exists>i. GetFileIndex n ''checkpoint'' = Inr i"
    proof (cases "n = snd ?ck")
      case True
      with pk show ?thesis by auto
    next
      case False
      then have "(CheckpointsDirectory, n) \<noteq> ?ck" by (auto simp: CheckpointPath_def)
      with present have "map_of (files s) (CheckpointsDirectory, n) \<noteq> None"
        by (simp add: m3)
      with assms(4) show ?thesis by blast
    qed
    with present show "(\<exists>i. GetFileIndex n ''checkpoint'' = Inr i) \<and>
           map_of (files s6) (CheckpointsDirectory, n) \<noteq> None" by (simp add: f6)
  qed
  from DeleteOutdatedCheckpoints_loop_no_fault[OF f6(1) distinct_children[of CheckpointsDirectory f3] names]
  obtain s' hs where run: "DeleteOutdatedCheckpoints_loop ?names s6 = (OkStatus, s')"
    and f: "fault s' = None" and h: "history s' = history s6 @ hs"
    and hs: "\<forall>F \<in> set hs. pruned_from ?j f3 F" and fin: "pruned_from ?j f3 (files s')"
    by (auto simp: f6)
  have "Save s = (OkStatus, s')"
    using sv run f6 by (simp add: DeleteOutdatedCheckpoints_def)
  moreover have "history s' = history s @ ([f1, f2, f3] @ hs)" using h f6 by simp
  moreover have "\<forall>F \<in> set ([f1, f2, f3] @ hs).
      tmp_only (files s) F \<or> saved ?j (cursor s) (files s) F"
    using t1 t2 s3 hs keep by auto
  moreover have "saved ?j (cursor s) (files s) (files s')" using fin by (rule keep)
  ultimately show ?thesis using f by blast
qed

lemma WriteChunk_steady:
  assumes "steady s"
  shows "\<exists>s' hs. WriteChunk s = (OkStatus, s') \<and>
    s' = s\<lparr>chunk_index := chunk_index s + 1, chunk_size_bytes := 0,
            end_of_sequence := chunk_exhausts s, cursor := cursor s + chunk_count s,
            files := files s', history := history s @ hs\<rparr> \<and>
    (\<forall>F \<in> set hs. near (chunk_index s) (files s) F \<or>
       (\<not> chunk_exhausts s \<and>
        after_checkpoint (chunk_index s) (cursor s + chunk_count s) (chunk_content s) (files s) F)) \<and>
    (if chunk_exhausts s then near (chunk_index s) (files s) (files s')
     else after_checkpoint (chunk_index s) (cursor s + chunk_count s) (chunk_content s) (files s) (files s') \<and>
          (\<forall>n i. map_of (files s') (CheckpointsDirectory, n) \<noteq> None \<longrightarrow>
             GetFileIndex n ''checkpoint'' = Inr i \<longrightarrow> chunk_index s \<le> i)) \<and>
    map_of (files s') (UncommittedChunksDirectory, StrCat ''chunk_'' (chunk_index s)) = None \<and>
    map_of (files s') (CommittedChunksDirectory, StrCat ''chunk_'' (chunk_index s)) = Some (chunk_content s)"
proof -
  let ?j = "chunk_index s"
  let ?name = "StrCat ''chunk_'' ?j"
  let ?w = "(UncommittedChunksDirectory, ?name)"
  let ?com = "(CommittedChunksDirectory, ?name)"
  let ?n = "chunk_count s" and ?c = "chunk_content s" and ?b = "chunk_exhausts s"
  let ?p' = "cursor s + chunk_count s"
  from assms have f: "fault s = None" and cn: "cancel_in s = None" and ok: "status s = OkStatus"
    and ne: "\<not> end_of_sequence s" and z: "chunk_size_bytes s = 0"
    and j: "0 \<le> ?j" "?j \<le> kint64max" and jlt: "?j < kint64max"
    and parse: "\<forall>n. map_of (files s) (CheckpointsDirectory, n) \<noteq> None \<longrightarrow>
        (\<exists>i. GetFileIndex n ''checkpoint'' = Inr i)"
    by (simp_all add: steady_def checkpoints_parse_def)
  define g1 where "g1 = AList.update ?w [] (files s)"
  define s1 where "s1 = set_files g1 s"
  have pre1: "fault s1 = None" "cancel_in s1 = None" "status s1 = OkStatus" "\<not> end_of_sequence s1"
    "map_of (files s1) ?w = Some []"
    using f cn ok ne by (simp_all add: s1_def g1_def map_of_update)
  from WriteChunk_loop_no_fault[OF pre1] obtain fs hs1 where
    loop: "WriteChunk_loop ?w s1 =
      (OkStatus, s1\<lparr>chunk_size_bytes := chunk_size_bytes s +
            sum_list (map (estimated_size_bytes s) (take ?n (drop (cursor s) (elements s)))),
          end_of_sequence := ?b, cursor := ?p', files := fs, history := history s1 @ hs1\<rparr>)"
    and mfs: "map_of fs = (map_of (files s1))(?w \<mapsto> ?c)"
    and h1: "\<forall>F \<in> set hs1. \<exists>c. map_of F = (map_of (files s1))(?w \<mapsto> c)"
    by (auto simp: s1_def chunk_count_def chunk_content_def chunk_exhausts_def)
  define s2 where "s2 = s1\<lparr>chunk_size_bytes := chunk_size_bytes s +
            sum_list (map (estimated_size_bytes s) (take ?n (drop (cursor s) (elements s)))),
          end_of_sequence := ?b, cursor := ?p', files := fs, history := history s1 @ hs1\<rparr>"
  have f2: "fault s2 = None" "cancel_in s2 = None" "status s2 = OkStatus" "end_of_sequence s2 = ?b"
    "chunk_index s2 = ?j" "cursor s2 = ?p'" "files s2 = fs" "history s2 = history s @ (g1 # hs1)"
    using f cn ok by (simp_all add: s2_def s1_def)
  have init: "TFRecordWriter_Initialize ?w s = (OkStatus, s1)"
    using f by (simp add: s1_def g1_def)
  have loop2: "WriteChunk_loop ?w s1 = (OkStatus, s2)"
    using loop by (simp only: s2_def)
  have close: "TFRecordWriter_Close ?w s2 = (OkStatus, s2)"
    using f2(1) by simp
  have wc: "WriteChunk s = CommitChunk ?w s2"
    by (simp add: WriteChunk_def Let_def GetChunkFilePath_def init loop2 close)
  have mg1: "map_of g1 = (map_of (files s))(?w \<mapsto> [])" by (simp add: g1_def map_of_update)
  have mfs': "map_of fs = (map_of (files s))(?w \<mapsto> ?c)" using mfs by (simp add: s1_def mg1)
  have near_w: "near ?j (files s) F" if "map_of F = (map_of (files s))(?w \<mapsto> c)" for F c
    using that by (simp add: near_def)
  have n1: "\<forall>F \<in> set (g1 # hs1). near ?j (files s) F"
  proof
    fix F assume "F \<in> set (g1 # hs1)"
    then consider "F = g1" | "F \<in> set hs1" by auto
    then show "near ?j (files s) F"
    proof cases
      case 1
      then show ?thesis using mg1 by (auto intro: near_w)
    next
      case 2
      with h1 obtain c where "map_of F = (map_of (files s1))(?w \<mapsto> c)" by blast
      then have "map_of F = (map_of (files s))(?w \<mapsto> c)" by (simp add: s1_def mg1)
      then show ?thesis by (rule near_w)
    qed
  qed
  have sh: "ShouldSave s2 = (\<not> ?b, s2)" using f2 by (simp add: ShouldSave_def)
  show ?thesis
  proof (cases ?b)
    case True
    define g4 where "g4 = AList.update ?com ?c (AList.delete ?w fs)"
    define s' where "s' = (set_files g4 s2)\<lparr>chunk_index := ?j + 1, chunk_size_bytes := 0\<rparr>"
    have wrap: "int64_t (?j + 1) = ?j + 1" using j jlt by (intro int64_t_id) simp_all
    have "CommitChunk ?w s2 = (OkStatus, s')"
      using True sh f2 mfs' by (simp add: CommitChunk_def Let_def s'_def g4_def wrap)
    with wc have run: "WriteChunk s = (OkStatus, s')" by simp
    have m4: "map_of g4 = ((map_of (files s))(?w := None))(?com \<mapsto> ?c)"
      by (simp add: g4_def map_of_update map_of_delete mfs')
    have n4: "near ?j (files s) g4" unfolding near_def m4 by auto
    have fs': "files s' = g4" "history s' = history s @ (g1 # hs1 @ [g4])"
      by (simp_all add: s'_def f2)
    have eq: "s' = s\<lparr>chunk_index := ?j + 1, chunk_size_bytes := 0, end_of_sequence := ?b,
            cursor := ?p', files := files s', history := history s @ (g1 # hs1 @ [g4])\<rparr>"
      by (simp add: s'_def s2_def s1_def set_files_def)
    have "\<forall>F \<in> set (g1 # hs1 @ [g4]). near ?j (files s) F" using n1 n4 by auto
    with run eq True n4 fs' m4 show ?thesis
      by (intro exI[of _ s'] exI[of _ "g1 # hs1 @ [g4]"]) auto
  next
    case False
    have pre2: "fault s2 = None" "0 \<le> chunk_index s2" "chunk_index s2 \<le> kint64max"
      "\<forall>n. map_of (files s2) (CheckpointsDirectory, n) \<noteq> None \<longrightarrow>
           (\<exists>i. GetFileIndex n ''checkpoint'' = Inr i)"
      using f2 j parse by (simp_all add: mfs')
    from Save_no_fault[OF pre2] obtain s3 hs2 where
      sv: "Save s2 = (OkStatus, s3)" and f3: "fault s3 = None" and h3: "history s3 = history s2 @ hs2"
      and hs2: "\<forall>F \<in> set hs2. tmp_only fs F \<or> saved ?j ?p' fs F"
      and fin: "saved ?j ?p' fs (files s3)"
      by (auto simp: f2)
    note sc = Save_cases[OF sv]
    have e3: "env_step s2 s3" by (rule sc(1))
    have pruned: "\<forall>n i. map_of (files s3) (CheckpointsDirectory, n) \<noteq> None \<longrightarrow>
           GetFileIndex n ''checkpoint'' = Inr i \<longrightarrow> ?j \<le> i"
      using sc(3)[OF refl] f2 by simp
    have w3: "map_of (files s3) ?w = Some ?c"
      using sc(2)[THEN spec, of ?w] f2 mfs' by simp
    define g4 where "g4 = AList.update ?com ?c (AList.delete ?w (files s3))"
    define s' where "s' = (set_files g4 s3)\<lparr>chunk_index := ?j + 1, chunk_size_bytes := 0\<rparr>"
    have wrap: "int64_t (?j + 1) = ?j + 1" using j jlt by (intro int64_t_id) simp_all
    have ci3: "chunk_index s3 = ?j" using e3 f2 by (simp add: env_step_iff)
    have "CommitChunk ?w s2 = (OkStatus, s')"
      using False sh sv f3 w3 ci3 by (simp add: CommitChunk_def Let_def s'_def g4_def wrap)
    with wc have run: "WriteChunk s = (OkStatus, s')" by simp
    have m4: "map_of g4 = ((map_of (files s3))(?w := None))(?com \<mapsto> ?c)"
      by (simp add: g4_def map_of_update map_of_delete)
    have ckne: "CheckpointPath ?j \<noteq> ?w" "CheckpointPath ?j \<noteq> ?com" by (simp_all add: CheckpointPath_def)
    text \<open>a state with the checkpoint saved and the chunk still uncommitted\<close>
    have ac_saved: "after_checkpoint ?j ?p' ?c (files s) F" if "saved ?j ?p' fs F" for F
    proof -
      from that have a: "map_of F (CheckpointPath ?j) = Some [Variant ?p']"
        and b: "\<And>dir name. dir \<noteq> LocalTempDirectory \<Longrightarrow> (dir, name) \<noteq> CheckpointPath ?j \<Longrightarrow>
          map_of F (dir, name) = map_of fs (dir, name) \<or>
          (map_of F (dir, name) = None \<and> dir = CheckpointsDirectory \<and>
           (\<exists>i. GetFileIndex name ''checkpoint'' = Inr i \<and> i < ?j))"
        unfolding saved_def by blast+
      have c: "map_of F (CheckpointsDirectory, n) = map_of (files s) (CheckpointsDirectory, n) \<or>
        (map_of F (CheckpointsDirectory, n) = None \<and>
         (\<exists>i. GetFileIndex n ''checkpoint'' = Inr i \<and> i < ?j))"
        if "(CheckpointsDirectory, n) \<noteq> CheckpointPath ?j" for n
        using b[of CheckpointsDirectory n] that by (auto simp: mfs')
      have d: "map_of F (UncommittedChunksDirectory, n) = map_of fs (UncommittedChunksDirectory, n)"
        "map_of F (CommittedChunksDirectory, n) = map_of fs (CommittedChunksDirectory, n)" for n
        using b[of UncommittedChunksDirectory n] b[of CommittedChunksDirectory n]
        by (auto simp: CheckpointPath_def)
      show ?thesis
        unfolding after_checkpoint_def using a c d by (simp add: mfs')
    qed
    have near_tmp: "near ?j (files s) F" if "tmp_only fs F" for F
      using that unfolding near_def tmp_only_def by (simp add: mfs')
    have ac4: "after_checkpoint ?j ?p' ?c (files s) g4"
    proof -
      from ac_saved[OF fin] have a3: "after_checkpoint ?j ?p' ?c (files s) (files s3)" .
      have ck: "map_of g4 (CheckpointsDirectory, n) = map_of (files s3) (CheckpointsDirectory, n)" for n
        by (simp add: m4)
      have oth: "map_of g4 (UncommittedChunksDirectory, n) = map_of (files s3) (UncommittedChunksDirectory, n) \<and>
        map_of g4 (CommittedChunksDirectory, n) = map_of (files s3) (CommittedChunksDirectory, n)"
        if "n \<noteq> ?name" for n
        using that by (simp add: m4)
      have "map_of g4 (CheckpointPath ?j) = map_of (files s3) (CheckpointPath ?j)"
        using ckne by (simp add: m4)
      moreover have "map_of g4 ?w = None \<and> map_of g4 ?com = Some ?c" by (simp add: m4)
      ultimately show ?thesis
        using a3 unfolding after_checkpoint_def by (simp add: ck oth)
    qed
    have fs': "files s' = g4" "history s' = history s @ ((g1 # hs1) @ hs2 @ [g4])"
      by (simp_all add: s'_def h3 f2)
    have q3: "s3 = s2\<lparr>files := files s3, history := history s3, fault := fault s3\<rparr>"
      using e3 by (simp add: env_step_def)
    have eq: "s' = s\<lparr>chunk_index := ?j + 1, chunk_size_bytes := 0, end_of_sequence := ?b,
            cursor := ?p', files := files s', history := history s @ ((g1 # hs1) @ hs2 @ [g4])\<rparr>"
      apply (subst s'_def)
      apply (subst q3)
      apply (simp add: s2_def s1_def set_files_def f3 h3 f f2 fs')
      done
    have all: "\<forall>F \<in> set ((g1 # hs1) @ hs2 @ [g4]). near ?j (files s) F \<or>
       (\<not> ?b \<and> after_checkpoint ?j ?p' ?c (files s) F)"
      using n1 hs2 ac4 False near_tmp ac_saved by auto
    have pr4: "\<forall>n i. map_of (files s') (CheckpointsDirectory, n) \<noteq> None \<longrightarrow>
             GetFileIndex n ''checkpoint'' = Inr i \<longrightarrow> ?j \<le> i"
      using pruned by (simp add: fs' m4)
    from run eq all ac4 pr4 False show ?thesis
      by (intro exI[of _ s'] exI[of _ "(g1 # hs1) @ hs2 @ [g4]"]) (simp add: fs' m4)
  qed
qed

lemma checkpoints_parse_near:
  assumes "near j F0 F" "checkpoints_parse F0"
  shows "checkpoints_parse F"
  using assms unfolding near_def checkpoints_parse_def by simp

lemma checkpoints_parse_after:
  assumes "after_checkpoint j p c F0 F" "checkpoints_parse F0" "0 \<le> j" "j \<le> kint64max"
  shows "checkpoints_parse F"
  unfolding checkpoints_parse_def
proof (intro allI impI)
  fix n assume pr: "map_of F (CheckpointsDirectory, n) \<noteq> None"
  show "\<exists>i. GetFileIndex n ''checkpoint'' = Inr i"
  proof (cases "(CheckpointsDirectory, n) = CheckpointPath j")
    case True
    then have "n = snd (CheckpointPath j)" by (simp add: prod_eq_iff)
    with CheckpointPath_parses[OF assms(3,4)] show ?thesis by auto
  next
    case False
    with assms(1) have "map_of F (CheckpointsDirectory, n) = map_of F0 (CheckpointsDirectory, n) \<or>
        (map_of F (CheckpointsDirectory, n) = None \<and>
         (\<exists>i. GetFileIndex n ''checkpoint'' = Inr i \<and> i < j))"
      unfolding after_checkpoint_def by blast
    with pr assms(2) show ?thesis unfolding checkpoints_parse_def by auto
  qed
qed

lemma resumes_as_fields:
  assumes "resumes_as s r"
  shows "chunk_index r = chunk_index s" "cursor r = cursor s" "chunk_count r = chunk_count s"
    "chunk_content r = chunk_content s" "chunk_exhausts r = chunk_exhausts s"
    "max_chunk_size_bytes r = max_chunk_size_bytes s" "elements r = elements s"
    "steady s \<Longrightarrow> steady r"
proof -
  from assms have eq: "r = s\<lparr>files := files r, history := history r\<rparr>"
    and cp: "checkpoints_parse (files r)" by (simp_all add: resumes_as_def)
  have f: "chunk_index r = chunk_index s" "cursor r = cursor s" "elements r = elements s"
    "max_chunk_size_bytes r = max_chunk_size_bytes s" "estimated_size_bytes r = estimated_size_bytes s"
    "chunk_size_bytes r = chunk_size_bytes s" "fault r = fault s" "cancel_in r = cancel_in s"
    "status r = status s" "end_of_sequence r = end_of_sequence s"
    by (subst eq, simp)+
  show "chunk_index r = chunk_index s" "cursor r = cursor s"
    "max_chunk_size_bytes r = max_chunk_size_bytes s" "elements r = elements s" by (rule f)+
  show cc: "chunk_count r = chunk_count s" by (simp add: chunk_count_def f)
  show "chunk_content r = chunk_content s" by (simp add: chunk_content_def cc f)
  show "chunk_exhausts r = chunk_exhausts s" by (simp add: chunk_exhausts_def cc f)
  show "steady s \<Longrightarrow> steady r" using cp by (simp add: steady_def f)
qed

lemma SyncCheckpointWithChunks_loop_ok:
  assumes "fault s = None" "distinct names"
    and "\<forall>n \<in> set names. (\<exists>i. GetFileIndex n ''chunk'' = Inr i) \<and>
           map_of (files s) (UncommittedChunksDirectory, n) \<noteq> None"
  shows "\<exists>s'. SyncCheckpointWithChunks_loop names k s = (OkStatus, s') \<and> fault s' = None"
  using assms
proof (induction names arbitrary: s)
  case Nil
  then show ?case by simp
next
  case (Cons n names)
  from Cons.prems obtain i c where i: "GetFileIndex n ''chunk'' = Inr i"
    and c: "map_of (files s) (UncommittedChunksDirectory, n) = Some c" by auto
  let ?u = "(UncommittedChunksDirectory, n)" and ?t = "(CommittedChunksDirectory, n)"
  define s1 where "s1 = (if i \<le> k then set_files (AList.update ?t c (AList.delete ?u (files s))) s
                         else set_files (AList.delete ?u (files s)) s)"
  have step: "(if i \<le> k then RenameFile ?u ?t s else DeleteFile ?u s) = (OkStatus, s1)"
    using Cons.prems(1) c by (simp add: s1_def)
  have f1: "fault s1 = None" using Cons.prems(1) by (simp add: s1_def)
  have keep: "map_of (files s1) (UncommittedChunksDirectory, m) = map_of (files s) (UncommittedChunksDirectory, m)"
    if "m \<noteq> n" for m
    using that by (simp add: s1_def map_of_update map_of_delete)
  have "\<forall>m \<in> set names. (\<exists>i. GetFileIndex m ''chunk'' = Inr i) \<and>
           map_of (files s1) (UncommittedChunksDirectory, m) \<noteq> None"
  proof
    fix m assume m: "m \<in> set names"
    with Cons.prems(2) have "m \<noteq> n" by auto
    with keep[OF this] Cons.prems(3) m
    show "(\<exists>i. GetFileIndex m ''chunk'' = Inr i) \<and>
           map_of (files s1) (UncommittedChunksDirectory, m) \<noteq> None" by simp
  qed
  from Cons.IH[OF f1 _ this] Cons.prems(2)
  obtain s' where "SyncCheckpointWithChunks_loop names k s1 = (OkStatus, s')" "fault s' = None"
    by auto
  with i step show ?case by (simp add: Let_def)
qed

lemma Restore_resume:
  assumes f: "fault s = None"
    and ck: "map_of (files s) (CheckpointPath k) = Some [Variant p]"
    and k: "0 \<le> k" "k \<le> kint64max" and klt: "k < kint64max"
    and le: "\<forall>n. map_of (files s) (CheckpointsDirectory, n) \<noteq> None \<longrightarrow>
              (\<exists>i. GetFileIndex n ''checkpoint'' = Inr i \<and> i \<le> k)"
    and un: "\<forall>n. map_of (files s) (UncommittedChunksDirectory, n) \<noteq> None \<longrightarrow>
              (\<exists>i. GetFileIndex n ''chunk'' = Inr i)"
  shows "\<exists>s'. Restore s = (OkStatus, s') \<and>
    s' = s\<lparr>chunk_index := k + 1, cursor := p, files := files s', history := history s'\<rparr> \<and>
    (\<forall>n. map_of (files s') (CheckpointsDirectory, n) = map_of (files s) (CheckpointsDirectory, n)) \<and>
    (\<forall>n. map_of (files s') (UncommittedChunksDirectory, n) = None) \<and>
    (\<forall>n. map_of (files s') (CommittedChunksDirectory, n) =
       (case map_of (files s) (UncommittedChunksDirectory, n) of
          None \<Rightarrow> map_of (files s) (CommittedChunksDirectory, n)
        | Some c \<Rightarrow> (case GetFileIndex n ''chunk'' of
                       Inr i \<Rightarrow> if i \<le> k then Some c else map_of (files s) (CommittedChunksDirectory, n)
                     | Inl e \<Rightarrow> None)))"
proof -
  let ?names = "children CheckpointsDirectory (files s)"
  let ?S = "{i. \<exists>n \<in> set ?names. GetFileIndex n ''checkpoint'' = Inr i}"
  have kin: "snd (CheckpointPath k) \<in> set ?names"
    using ck by (simp add: children_iff CheckpointPath_def)
  then have ne: "?names \<noteq> []" by auto
  have all: "\<forall>n \<in> set ?names. \<exists>i. GetFileIndex n ''checkpoint'' = Inr i"
  proof
    fix n assume "n \<in> set ?names"
    then have "map_of (files s) (CheckpointsDirectory, n) \<noteq> None" by (simp add: children_iff)
    with le[THEN spec, of n] show "\<exists>i. GetFileIndex n ''checkpoint'' = Inr i" by blast
  qed
  have fin: "finite ?S"
  proof -
    have "?S \<subseteq> (\<lambda>n. projr (GetFileIndex n ''checkpoint'')) ` set ?names" by force
    then show ?thesis by (rule finite_subset) simp
  qed
  have kS: "k \<in> ?S" using kin CheckpointPath_parses[OF k] by blast
  have leS: "\<forall>i \<in> ?S. i \<le> k"
  proof
    fix i assume "i \<in> ?S"
    then obtain n where n: "n \<in> set ?names" "GetFileIndex n ''checkpoint'' = Inr i" by blast
    then have "map_of (files s) (CheckpointsDirectory, n) \<noteq> None" by (simp add: children_iff)
    with le[THEN spec, of n] n(2) show "i \<le> k" by auto
  qed
  have mx: "Max (insert 0 ?S) = k"
  proof (rule Max_eqI)
    show "finite (insert 0 ?S)" using fin by simp
    show "\<And>y. y \<in> insert 0 ?S \<Longrightarrow> y \<le> k" using leS k by auto
    show "k \<in> insert 0 ?S" using kS by simp
  qed
  have last: "LastCheckpointIndex s = (Inr k, s)"
    using f ne LastCheckpointIndex_loop_Inr[OF all, of 0] mx
    by (simp add: LastCheckpointIndex_def)
  define s4 where "s4 = s\<lparr>cursor := p\<rparr>"
  have f4: "fault s4 = None" "files s4 = files s" using f by (simp_all add: s4_def)
  let ?unc = "children UncommittedChunksDirectory (files s4)"
  have "\<forall>n \<in> set ?unc. (\<exists>i. GetFileIndex n ''chunk'' = Inr i) \<and>
           map_of (files s4) (UncommittedChunksDirectory, n) \<noteq> None"
  proof
    fix n assume "n \<in> set ?unc"
    then have pr: "map_of (files s) (UncommittedChunksDirectory, n) \<noteq> None"
      by (simp add: children_iff f4)
    with un[THEN spec, of n] show "(\<exists>i. GetFileIndex n ''chunk'' = Inr i) \<and>
           map_of (files s4) (UncommittedChunksDirectory, n) \<noteq> None"
      by (simp add: f4)
  qed
  from SyncCheckpointWithChunks_loop_ok[OF f4(1) distinct_children this, of k]
  obtain s5 where s5: "SyncCheckpointWithChunks_loop ?unc k s4 = (OkStatus, s5)" and f5: "fault s5 = None"
    by auto
  have sync: "SyncCheckpointWithChunks k s4 = (OkStatus, s5)"
    using f4 s5 by (simp add: SyncCheckpointWithChunks_def)
  define s' where "s' = s5\<lparr>chunk_index := k + 1\<rparr>"
  have wrap: "int64_t (k + 1) = k + 1" using k klt by (intro int64_t_id) simp_all
  have run: "Restore s = (OkStatus, s')"
    using f ck sync
    by (simp add: Restore_def last Let_def file_contents_def s4_def[symmetric] s'_def wrap)
  have lk: "fst (LastCheckpointIndex s) = Inr k" by (simp add: last)
  note rf = Restore_found[OF run lk]
  from rf(1) have q: "quiet s s'" "chunk_size_bytes s' = chunk_size_bytes s"
    "end_of_sequence s' = end_of_sequence s" by simp_all
  from rf(2)[OF refl, unfolded wrap] have ci: "chunk_index s' = k + 1"
    and cur: "map_of (files s) (CheckpointPath k) = Some [Variant (cursor s')]"
    and mv: "\<forall>n. map_of (files s) (UncommittedChunksDirectory, n) \<noteq> None \<longrightarrow>
           (\<exists>i. GetFileIndex n ''chunk'' = Inr i \<and>
              map_of (files s') (UncommittedChunksDirectory, n) = None \<and>
              map_of (files s') (CommittedChunksDirectory, n) =
                (if i \<le> k then map_of (files s) (UncommittedChunksDirectory, n)
                 else map_of (files s) (CommittedChunksDirectory, n)))"
    and keep: "\<forall>dir n. map_of (files s) (UncommittedChunksDirectory, n) = None \<or>
                 (dir \<noteq> UncommittedChunksDirectory \<and> dir \<noteq> CommittedChunksDirectory) \<longrightarrow>
           map_of (files s') (dir, n) = map_of (files s) (dir, n)"
    by blast+
  have cp: "cursor s' = p" using cur ck by simp
  have fs': "fault s' = None" using f5 by (simp add: s'_def)
  have eq: "s' = s\<lparr>chunk_index := k + 1, cursor := p, files := files s', history := history s'\<rparr>"
    using q ci cp fs' f by (cases s, cases s') (simp add: quiet_def)
  have a: "map_of (files s') (CheckpointsDirectory, n) = map_of (files s) (CheckpointsDirectory, n)" for n
    using keep[THEN spec, THEN spec, of n CheckpointsDirectory] by simp
  have b: "map_of (files s') (UncommittedChunksDirectory, n) = None" for n
  proof (cases "map_of (files s) (UncommittedChunksDirectory, n)")
    case None
    with keep[THEN spec, THEN spec, of n UncommittedChunksDirectory] show ?thesis by simp
  next
    case (Some c)
    with mv[THEN spec, of n] show ?thesis by auto
  qed
  have c: "map_of (files s') (CommittedChunksDirectory, n) =
       (case map_of (files s) (UncommittedChunksDirectory, n) of
          None \<Rightarrow> map_of (files s) (CommittedChunksDirectory, n)
        | Some c \<Rightarrow> (case GetFileIndex n ''chunk'' of
                       Inr i \<Rightarrow> if i \<le> k then Some c else map_of (files s) (CommittedChunksDirectory, n)
                     | Inl e \<Rightarrow> None))" for n
  proof (cases "map_of (files s) (UncommittedChunksDirectory, n)")
    case None
    with keep[THEN spec, THEN spec, of n CommittedChunksDirectory] show ?thesis by simp
  next
    case (Some c)
    with mv[THEN spec, of n] show ?thesis by auto
  qed
  from run eq a b c show ?thesis by blast
qed

lemma near_committed:
  "near j F0 F \<Longrightarrow> n \<noteq> StrCat ''chunk_'' j \<Longrightarrow>
     map_of F (CommittedChunksDirectory, n) = map_of F0 (CommittedChunksDirectory, n)"
  by (simp add: near_def)

lemma after_checkpoint_committed:
  "after_checkpoint j p c F0 F \<Longrightarrow> n \<noteq> StrCat ''chunk_'' j \<Longrightarrow>
     map_of F (CommittedChunksDirectory, n) = map_of F0 (CommittedChunksDirectory, n)"
  by (simp add: after_checkpoint_def)

lemma WriteSnapshotFn_loop_continue:
  assumes "steady s" "WriteChunk s = (OkStatus, s')"
  shows "WriteSnapshotFn_loop s = WriteSnapshotFn_loop s'"
proof -
  from assms(1) have "ShouldWriteChunk s = (True, s)"
    by (simp add: steady_def ShouldWriteChunk_def Let_def)
  with assms(2) show ?thesis
    by (subst WriteSnapshotFn_loop.simps) simp
qed

lemma WriteSnapshotFn_loop_stop:
  assumes "cancel_in s = None" "end_of_sequence s"
  shows "WriteSnapshotFn_loop s = Some (OkStatus, s)"
proof -
  from assms have "ShouldWriteChunk s = (False, s)"
    by (simp add: ShouldWriteChunk_def Let_def)
  then show ?thesis
    by (subst WriteSnapshotFn_loop.simps) simp
qed

lemma chunk_count_pos:
  assumes "steady s" "0 < max_chunk_size_bytes s" "\<not> chunk_exhausts s"
  shows "0 < chunk_count s" "cursor s + chunk_count s \<le> length (elements s)"
proof -
  from assms(1) have z: "chunk_size_bytes s = 0" by (simp add: steady_def)
  let ?rest = "drop (cursor s) (elements s)"
  have ne: "?rest \<noteq> []"
  proof
    assume "?rest = []"
    with assms(2,3) z show False by (simp add: chunk_exhausts_def chunk_count_def)
  qed
  then obtain e es where r: "?rest = e # es" by (cases ?rest) auto
  show "0 < chunk_count s" using assms(2) z by (simp add: chunk_count_def r)
  have "chunk_count s \<le> length ?rest" unfolding chunk_count_def by (rule fill_count_le)
  moreover from ne have "cursor s < length (elements s)" by simp
  ultimately show "cursor s + chunk_count s \<le> length (elements s)" by simp
qed

lemma WriteChunk_steady_next:
  assumes st: "steady s"
    and eq: "s' = s\<lparr>chunk_index := chunk_index s + 1, chunk_size_bytes := 0,
            end_of_sequence := b, cursor := p, files := F, history := H\<rparr>"
  shows "chunk_index s' = chunk_index s + 1" "cursor s' = p" "elements s' = elements s"
    "max_chunk_size_bytes s' = max_chunk_size_bytes s" "cancel_in s' = None" "status s' = OkStatus"
    "end_of_sequence s' = b" "files s' = F" "history s' = H"
    "estimated_size_bytes s' = estimated_size_bytes s" "snapshot_thread s' = snapshot_thread s"
    "\<not> b \<Longrightarrow> chunk_index s + 1 < kint64max \<Longrightarrow> checkpoints_parse F \<Longrightarrow> steady s'"
  using st by (simp_all add: eq steady_def)

lemma WriteSnapshotFn_loop_bisim:
  assumes "steady s" "resumes_as s r" "0 < max_chunk_size_bytes s"
    and "chunk_index s + int (length (elements s) - cursor s) < kint64max"
  shows "\<exists>fin fr. WriteSnapshotFn_loop s = Some (OkStatus, fin) \<and>
     WriteSnapshotFn_loop r = Some (OkStatus, fr) \<and>
     status fin = OkStatus \<and> cancel_in fin = None \<and> status fr = OkStatus \<and> cancel_in fr = None \<and>
     (\<forall>n. map_of (files fr) (CommittedChunksDirectory, n) =
          map_of (files fin) (CommittedChunksDirectory, n))"
  using assms
proof (induction "length (elements s) - cursor s" arbitrary: s r rule: less_induct)
  case less
  note st_s = less.prems(1) and ra = less.prems(2) and mx = less.prems(3) and bd = less.prems(4)
  note rf = resumes_as_fields[OF ra]
  have st_r: "steady r" by (rule rf(8)[OF st_s])
  let ?j = "chunk_index s"
  let ?name = "StrCat ''chunk_'' ?j"
  let ?b = "chunk_exhausts s" and ?c = "chunk_content s" and ?p = "cursor s + chunk_count s"
  from st_s have j: "0 \<le> ?j" "?j \<le> kint64max" and cps: "checkpoints_parse (files s)"
    by (auto simp: steady_def)
  from st_r have cpr: "checkpoints_parse (files r)" by (simp add: steady_def)
  from WriteChunk_steady[OF st_s] obtain s' hs where
    ws: "WriteChunk s = (OkStatus, s')"
    and es: "s' = s\<lparr>chunk_index := ?j + 1, chunk_size_bytes := 0,
            end_of_sequence := ?b, cursor := ?p, files := files s', history := history s @ hs\<rparr>"
    and fs: "if ?b then near ?j (files s) (files s')
             else after_checkpoint ?j ?p ?c (files s) (files s') \<and>
          (\<forall>n i. map_of (files s') (CheckpointsDirectory, n) \<noteq> None \<longrightarrow>
             GetFileIndex n ''checkpoint'' = Inr i \<longrightarrow> ?j \<le> i)"
    and cs: "map_of (files s') (CommittedChunksDirectory, ?name) = Some ?c"
    by (elim exE conjE)
  from WriteChunk_steady[OF st_r] obtain r' hr where
    wr: "WriteChunk r = (OkStatus, r')"
    and er: "r' = r\<lparr>chunk_index := chunk_index r + 1, chunk_size_bytes := 0,
            end_of_sequence := ?b, cursor := ?p, files := files r', history := history r @ hr\<rparr>"
    and fr: "if ?b then near ?j (files r) (files r')
             else after_checkpoint ?j ?p ?c (files r) (files r') \<and>
          (\<forall>n i. map_of (files r') (CheckpointsDirectory, n) \<noteq> None \<longrightarrow>
             GetFileIndex n ''checkpoint'' = Inr i \<longrightarrow> ?j \<le> i)"
    and cr: "map_of (files r') (CommittedChunksDirectory, ?name) = Some ?c"
    unfolding rf(1-5) by (elim exE conjE)
  note ns = WriteChunk_steady_next[OF st_s es]
  note nr = WriteChunk_steady_next[OF st_r er]
  from ra have eqr: "r = s\<lparr>files := files r, history := history r\<rparr>"
    and com: "\<And>n. n \<noteq> ?name \<Longrightarrow>
        map_of (files r) (CommittedChunksDirectory, n) = map_of (files s) (CommittedChunksDirectory, n)"
    by (simp_all add: resumes_as_def)
  have core: "r' = s'\<lparr>files := files r', history := history r'\<rparr>"
    using es er eqr rf(1) by (cases s, cases s', cases r, cases r') simp
  have ks: "map_of (files s') (CommittedChunksDirectory, n) = map_of (files s) (CommittedChunksDirectory, n)"
    if "n \<noteq> ?name" for n
    using fs that by (auto simp: near_committed after_checkpoint_committed split: if_splits)
  have kr: "map_of (files r') (CommittedChunksDirectory, n) = map_of (files r) (CommittedChunksDirectory, n)"
    if "n \<noteq> ?name" for n
    using fr that by (auto simp: near_committed after_checkpoint_committed split: if_splits)
  have all: "map_of (files r') (CommittedChunksDirectory, n) = map_of (files s') (CommittedChunksDirectory, n)" for n
    using ks[of n] kr[of n] com[of n] cs cr by (cases "n = ?name") simp_all
  have ls: "WriteSnapshotFn_loop s = WriteSnapshotFn_loop s'"
    by (rule WriteSnapshotFn_loop_continue[OF st_s ws])
  have lr: "WriteSnapshotFn_loop r = WriteSnapshotFn_loop r'"
    by (rule WriteSnapshotFn_loop_continue[OF st_r wr])
  show ?case
  proof (cases ?b)
    case True
    have "WriteSnapshotFn_loop s' = Some (OkStatus, s')"
      using ns(5,7) True by (intro WriteSnapshotFn_loop_stop) simp_all
    moreover have "WriteSnapshotFn_loop r' = Some (OkStatus, r')"
      using nr(5,7) True by (intro WriteSnapshotFn_loop_stop) simp_all
    ultimately show ?thesis
      using ls lr ns(5,6) nr(5,6) all by simp
  next
    case False
    note pos = chunk_count_pos[OF st_s mx False]
    from pos bd have lt: "?j + 1 < kint64max" by linarith
    from fs False have acs: "after_checkpoint ?j ?p ?c (files s) (files s')" by simp
    from fr False have acr: "after_checkpoint ?j ?p ?c (files r) (files r')" by simp
    have st_s': "steady s'"
      by (rule ns(12)[OF False lt checkpoints_parse_after[OF acs cps j]])
    have cpr': "checkpoints_parse (files r')"
      by (rule checkpoints_parse_after[OF acr cpr j])
    have ra': "resumes_as s' r'"
      unfolding resumes_as_def using core cpr' all by simp
    have m: "length (elements s') - cursor s' < length (elements s) - cursor s"
      using pos by (simp add: ns(2,3))
    have bd': "chunk_index s' + int (length (elements s') - cursor s') < kint64max"
      using pos bd by (simp add: ns(1,2,3))
    have mx': "0 < max_chunk_size_bytes s'" using mx by (simp add: ns(4))
    from less.hyps[OF m st_s' ra' mx' bd'] ls lr show ?thesis by simp
  qed
qed

lemma WriteSnapshotFn_resumed:
  assumes "Restore (SnapshotStreamWriter m e es F) = (OkStatus, r)"
    and "WriteSnapshotFn_loop r = Some (OkStatus, fr)" "status fr = OkStatus" "cancel_in fr = None"
  shows "WriteSnapshotFn (SnapshotStreamWriter m e es F) = Some (OkStatus, fr)"
proof -
  have "fault (SnapshotStreamWriter m e es F) = None" by (simp add: SnapshotStreamWriter_def)
  then have "InitializeDirectories (SnapshotStreamWriter m e es F) = (OkStatus, SnapshotStreamWriter m e es F)"
    by simp
  with assms show ?thesis by (simp add: WriteSnapshotFn_def Let_def)
qed

lemma chunk_name_parses:
  assumes "0 \<le> j" "j \<le> kint64max"
  shows "GetFileIndex (StrCat ''chunk_'' j) ''chunk'' = Inr j"
  using GetFileIndex_StrCat[OF assms, of "''chunk''"] by simp

lemma restart_near:
  assumes cl: "clean s" and nr: "near (chunk_index s) (files s) F"
  shows "\<exists>r. Restore (SnapshotStreamWriter (max_chunk_size_bytes s) (estimated_size_bytes s) (elements s) F)
              = (OkStatus, r) \<and> resumes_as s r"
proof -
  let ?j = "chunk_index s"
  let ?i0 = "SnapshotStreamWriter (max_chunk_size_bytes s) (estimated_size_bytes s) (elements s) F"
  from cl have st: "steady s" and th: "snapshot_thread s"
    and unc: "\<And>n. map_of (files s) (UncommittedChunksDirectory, n) = None"
    by (simp_all add: clean_def)
  from st have sf: "fault s = None" "cancel_in s = None" "status s = OkStatus" "\<not> end_of_sequence s"
    "chunk_size_bytes s = 0" "0 \<le> ?j" "?j \<le> kint64max" "?j < kint64max"
    by (auto simp: steady_def)
  from nr have nck: "\<And>n. map_of F (CheckpointsDirectory, n) = map_of (files s) (CheckpointsDirectory, n)"
    and nun: "\<And>n. n \<noteq> StrCat ''chunk_'' ?j \<Longrightarrow>
        map_of F (UncommittedChunksDirectory, n) = map_of (files s) (UncommittedChunksDirectory, n)"
    and nco: "\<And>n. n \<noteq> StrCat ''chunk_'' ?j \<Longrightarrow>
        map_of F (CommittedChunksDirectory, n) = map_of (files s) (CommittedChunksDirectory, n)"
    by (simp_all add: near_def)
  have i0: "fault ?i0 = None" "files ?i0 = F" by (simp_all add: SnapshotStreamWriter_def)
  show ?thesis
  proof (cases "?j = 0")
    case True
    with cl have c0: "cursor s = 0" and nock: "\<And>n. map_of (files s) (CheckpointsDirectory, n) = None"
      by (simp_all add: clean_def)
    have "children CheckpointsDirectory F = []"
    proof (cases "children CheckpointsDirectory F")
      case Nil
      then show ?thesis .
    next
      case (Cons a l)
      then have "a \<in> set (children CheckpointsDirectory F)" by simp
      then have False by (simp add: children_iff nck nock)
      then show ?thesis ..
    qed
    then have run: "Restore ?i0 = (OkStatus, ?i0)"
      using i0 by (simp add: Restore_def LastCheckpointIndex_def)
    have eq: "?i0 = s\<lparr>files := files ?i0, history := history ?i0\<rparr>"
      using sf th c0 True by (cases s) (simp add: SnapshotStreamWriter_def)
    have cp: "checkpoints_parse (files ?i0)"
      using nck nock by (simp add: checkpoints_parse_def i0)
    have "resumes_as s ?i0"
      unfolding resumes_as_def
    proof (intro conjI allI impI)
      show "?i0 = s\<lparr>files := files ?i0, history := history ?i0\<rparr>" by (rule eq)
      show "checkpoints_parse (files ?i0)" by (rule cp)
      fix n assume "n \<noteq> StrCat ''chunk_'' ?j"
      from nco[OF this]
      show "map_of (files ?i0) (CommittedChunksDirectory, n) = map_of (files s) (CommittedChunksDirectory, n)"
        by (simp add: i0)
    qed
    with run show ?thesis by blast
  next
    case False
    let ?k = "?j - 1"
    from False cl have ck: "map_of (files s) (CheckpointPath ?k) = Some [Variant (cursor s)]"
      and only: "\<And>n. (CheckpointsDirectory, n) \<noteq> CheckpointPath ?k \<Longrightarrow>
              map_of (files s) (CheckpointsDirectory, n) = None"
      by (simp_all add: clean_def)
    from False sf have k: "0 \<le> ?k" "?k \<le> kint64max" "?k < kint64max" by simp_all
    have p1: "map_of (files ?i0) (CheckpointPath ?k) = Some [Variant (cursor s)]"
      using ck nck by (simp add: i0 CheckpointPath_def)
    have p2: "\<forall>n. map_of (files ?i0) (CheckpointsDirectory, n) \<noteq> None \<longrightarrow>
              (\<exists>i. GetFileIndex n ''checkpoint'' = Inr i \<and> i \<le> ?k)"
    proof (intro allI impI)
      fix n assume "map_of (files ?i0) (CheckpointsDirectory, n) \<noteq> None"
      then have "map_of (files s) (CheckpointsDirectory, n) \<noteq> None" by (simp add: i0 nck)
      with only[of n] have "(CheckpointsDirectory, n) = CheckpointPath ?k" by blast
      then have "n = snd (CheckpointPath ?k)" by (simp add: prod_eq_iff)
      with CheckpointPath_parses[OF k(1,2)] show "\<exists>i. GetFileIndex n ''checkpoint'' = Inr i \<and> i \<le> ?k"
        by simp
    qed
    have p3: "\<forall>n. map_of (files ?i0) (UncommittedChunksDirectory, n) \<noteq> None \<longrightarrow>
              (\<exists>i. GetFileIndex n ''chunk'' = Inr i)"
    proof (intro allI impI)
      fix n assume pr: "map_of (files ?i0) (UncommittedChunksDirectory, n) \<noteq> None"
      have "n = StrCat ''chunk_'' ?j"
      proof (rule ccontr)
        assume "n \<noteq> StrCat ''chunk_'' ?j"
        from nun[OF this] unc[of n] pr show False by (simp add: i0)
      qed
      with chunk_name_parses[OF sf(6,7)] show "\<exists>i. GetFileIndex n ''chunk'' = Inr i" by simp
    qed
    from Restore_resume[OF i0(1) p1 k p2 p3] obtain r where
      run: "Restore ?i0 = (OkStatus, r)"
      and er: "r = ?i0\<lparr>chunk_index := ?k + 1, cursor := cursor s, files := files r, history := history r\<rparr>"
      and rck: "\<forall>n. map_of (files r) (CheckpointsDirectory, n) = map_of (files ?i0) (CheckpointsDirectory, n)"
      and rco: "\<forall>n. map_of (files r) (CommittedChunksDirectory, n) =
       (case map_of (files ?i0) (UncommittedChunksDirectory, n) of
          None \<Rightarrow> map_of (files ?i0) (CommittedChunksDirectory, n)
        | Some c \<Rightarrow> (case GetFileIndex n ''chunk'' of
                       Inr i \<Rightarrow> if i \<le> ?k then Some c else map_of (files ?i0) (CommittedChunksDirectory, n)
                     | Inl e \<Rightarrow> None))"
      by (elim exE conjE)
    have eq: "r = s\<lparr>files := files r, history := history r\<rparr>"
      using sf th er by (cases s, cases r) (simp add: SnapshotStreamWriter_def)
    have cp: "checkpoints_parse (files r)"
      unfolding checkpoints_parse_def using rck p2 by auto
    have co: "map_of (files r) (CommittedChunksDirectory, n) = map_of (files s) (CommittedChunksDirectory, n)"
      if "n \<noteq> StrCat ''chunk_'' ?j" for n
      using rco[THEN spec, of n] nun[OF that] nco[OF that] unc[of n] by (simp add: i0)
    have "resumes_as s r"
      unfolding resumes_as_def
    proof (intro conjI allI impI)
      show "r = s\<lparr>files := files r, history := history r\<rparr>" by (rule eq)
      show "checkpoints_parse (files r)" by (rule cp)
      fix n assume "n \<noteq> StrCat ''chunk_'' ?j"
      from co[OF this]
      show "map_of (files r) (CommittedChunksDirectory, n) = map_of (files s) (CommittedChunksDirectory, n)" .
    qed
    with run show ?thesis by blast
  qed
qed

lemma restart_after:
  assumes cl: "clean s" and ac: "after_checkpoint (chunk_index s) p c (files s) F"
  shows "\<exists>r. Restore (SnapshotStreamWriter (max_chunk_size_bytes s) (estimated_size_bytes s) (elements s) F)
              = (OkStatus, r) \<and>
     r = s\<lparr>chunk_index := chunk_index s + 1, cursor := p, files := files r, history := history r\<rparr> \<and>
     checkpoints_parse (files r) \<and>
     (\<forall>n. map_of (files r) (CommittedChunksDirectory, n) =
        (if n = StrCat ''chunk_'' (chunk_index s) then Some c
         else map_of (files s) (CommittedChunksDirectory, n)))"
proof -
  let ?j = "chunk_index s"
  let ?name = "StrCat ''chunk_'' ?j"
  let ?i0 = "SnapshotStreamWriter (max_chunk_size_bytes s) (estimated_size_bytes s) (elements s) F"
  from cl have st: "steady s" and th: "snapshot_thread s"
    and unc: "\<And>n. map_of (files s) (UncommittedChunksDirectory, n) = None"
    by (simp_all add: clean_def)
  from st have sf: "fault s = None" "cancel_in s = None" "status s = OkStatus" "\<not> end_of_sequence s"
    "chunk_size_bytes s = 0" "0 \<le> ?j" "?j \<le> kint64max" "?j < kint64max"
    by (auto simp: steady_def)
  have a1: "map_of F (CheckpointPath ?j) = Some [Variant p]"
    and a2: "\<And>n. (CheckpointsDirectory, n) \<noteq> CheckpointPath ?j \<Longrightarrow>
        map_of F (CheckpointsDirectory, n) = map_of (files s) (CheckpointsDirectory, n) \<or>
        (map_of F (CheckpointsDirectory, n) = None \<and>
         (\<exists>i. GetFileIndex n ''checkpoint'' = Inr i \<and> i < ?j))"
    and a3: "\<And>n. n \<noteq> ?name \<Longrightarrow>
        map_of F (UncommittedChunksDirectory, n) = map_of (files s) (UncommittedChunksDirectory, n) \<and>
        map_of F (CommittedChunksDirectory, n) = map_of (files s) (CommittedChunksDirectory, n)"
    and a4: "map_of F (UncommittedChunksDirectory, ?name) = Some c \<and>
      map_of F (CommittedChunksDirectory, ?name) = map_of (files s) (CommittedChunksDirectory, ?name) \<or>
      map_of F (UncommittedChunksDirectory, ?name) = None \<and>
      map_of F (CommittedChunksDirectory, ?name) = Some c"
    using ac unfolding after_checkpoint_def by simp_all
  have i0: "fault ?i0 = None" "files ?i0 = F" by (simp_all add: SnapshotStreamWriter_def)
  have p1: "map_of (files ?i0) (CheckpointPath ?j) = Some [Variant p]" using a1 by (simp add: i0)
  have p2: "\<forall>n. map_of (files ?i0) (CheckpointsDirectory, n) \<noteq> None \<longrightarrow>
              (\<exists>i. GetFileIndex n ''checkpoint'' = Inr i \<and> i \<le> ?j)"
  proof (intro allI impI)
    fix n assume pr: "map_of (files ?i0) (CheckpointsDirectory, n) \<noteq> None"
    show "\<exists>i. GetFileIndex n ''checkpoint'' = Inr i \<and> i \<le> ?j"
    proof (cases "(CheckpointsDirectory, n) = CheckpointPath ?j")
      case True
      then have "n = snd (CheckpointPath ?j)" by (simp add: prod_eq_iff)
      with CheckpointPath_parses[OF sf(6,7)] show ?thesis by simp
    next
      case False
      from a2[OF False] pr have same: "map_of (files s) (CheckpointsDirectory, n) \<noteq> None"
        by (auto simp: i0)
      have j0: "?j \<noteq> 0"
      proof
        assume "?j = 0"
        with cl have "map_of (files s) (CheckpointsDirectory, n) = None" by (simp add: clean_def)
        with same show False by simp
      qed
      with cl have only: "\<And>n. (CheckpointsDirectory, n) \<noteq> CheckpointPath (?j - 1) \<Longrightarrow>
              map_of (files s) (CheckpointsDirectory, n) = None"
        by (simp add: clean_def)
      have "(CheckpointsDirectory, n) = CheckpointPath (?j - 1)"
      proof (rule ccontr)
        assume "(CheckpointsDirectory, n) \<noteq> CheckpointPath (?j - 1)"
        from only[OF this] same show False by simp
      qed
      then have "n = snd (CheckpointPath (?j - 1))" by (simp add: prod_eq_iff)
      moreover from j0 sf have "0 \<le> ?j - 1" "?j - 1 \<le> kint64max" by simp_all
      ultimately show ?thesis using CheckpointPath_parses[of "?j - 1"] by simp
    qed
  qed
  have p3: "\<forall>n. map_of (files ?i0) (UncommittedChunksDirectory, n) \<noteq> None \<longrightarrow>
              (\<exists>i. GetFileIndex n ''chunk'' = Inr i)"
  proof (intro allI impI)
    fix n assume pr: "map_of (files ?i0) (UncommittedChunksDirectory, n) \<noteq> None"
    have "n = ?name"
    proof (rule ccontr)
      assume "n \<noteq> ?name"
      from a3[OF this] unc[of n] pr show False by (simp add: i0)
    qed
    with chunk_name_parses[OF sf(6,7)] show "\<exists>i. GetFileIndex n ''chunk'' = Inr i" by simp
  qed
  from Restore_resume[OF i0(1) p1 sf(6,7,8) p2 p3] obtain r where
    run: "Restore ?i0 = (OkStatus, r)"
    and er: "r = ?i0\<lparr>chunk_index := ?j + 1, cursor := p, files := files r, history := history r\<rparr>"
    and rck: "\<forall>n. map_of (files r) (CheckpointsDirectory, n) = map_of (files ?i0) (CheckpointsDirectory, n)"
    and rco: "\<forall>n. map_of (files r) (CommittedChunksDirectory, n) =
     (case map_of (files ?i0) (UncommittedChunksDirectory, n) of
        None \<Rightarrow> map_of (files ?i0) (CommittedChunksDirectory, n)
      | Some c \<Rightarrow> (case GetFileIndex n ''chunk'' of
                     Inr i \<Rightarrow> if i \<le> ?j then Some c else map_of (files ?i0) (CommittedChunksDirectory, n)
                   | Inl e \<Rightarrow> None))"
    by (elim exE conjE)
  have eq: "r = s\<lparr>chunk_index := ?j + 1, cursor := p, files := files r, history := history r\<rparr>"
    using sf th er by (cases s, cases r) (simp add: SnapshotStreamWriter_def)
  have cp: "checkpoints_parse (files r)"
    unfolding checkpoints_parse_def using rck p2 by auto
  have co: "map_of (files r) (CommittedChunksDirectory, n) =
        (if n = ?name then Some c else map_of (files s) (CommittedChunksDirectory, n))" for n
  proof (cases "n = ?name")
    case True
    with rco[THEN spec, of n] a4 chunk_name_parses[OF sf(6,7)] show ?thesis
      by (auto simp: i0)
  next
    case False
    with rco[THEN spec, of n] a3[OF False] unc[of n] show ?thesis by (simp add: i0)
  qed
  show ?thesis
  proof (intro exI[of _ r] conjI allI)
    show "Restore ?i0 = (OkStatus, r)" by (rule run)
    show "r = s\<lparr>chunk_index := ?j + 1, cursor := p, files := files r, history := history r\<rparr>"
      by (rule eq)
    show "checkpoints_parse (files r)" by (rule cp)
    show "map_of (files r) (CommittedChunksDirectory, n) =
        (if n = ?name then Some c else map_of (files s) (CommittedChunksDirectory, n))" for n
      by (rule co)
  qed
qed

lemma chunk_name_inj:
  assumes "0 \<le> i" "i \<le> kint64max" "0 \<le> j" "j \<le> kint64max"
    and "StrCat ''chunk_'' i = StrCat ''chunk_'' j"
  shows "i = j"
proof -
  have "(Inr i :: code + int) = GetFileIndex (StrCat ''chunk_'' i) ''chunk''"
    by (rule chunk_name_parses[OF assms(1,2), symmetric])
  also have "\<dots> = GetFileIndex (StrCat ''chunk_'' j) ''chunk''" by (simp only: assms(5))
  also have "\<dots> = Inr j" by (rule chunk_name_parses[OF assms(3,4)])
  finally show ?thesis by simp
qed

lemma committed_prefix_step:
  assumes st: "steady s" and cp: "committed_prefix s"
    and ci: "chunk_index s' = chunk_index s + 1" and cu: "cursor s' = cursor s + chunk_count s"
    and el: "elements s' = elements s"
    and com: "\<And>n. map_of (files s') (CommittedChunksDirectory, n) =
        (if n = StrCat ''chunk_'' (chunk_index s) then Some (chunk_content s)
         else map_of (files s) (CommittedChunksDirectory, n))"
  shows "committed_prefix s'"
proof -
  from st have j: "0 \<le> chunk_index s" "chunk_index s \<le> kint64max"
    by (auto simp: steady_def)
  from j(1) obtain m where jm: "chunk_index s = int m" by (auto dest: zero_le_imp_eq_int)
  have m: "nat (chunk_index s) = m" "nat (chunk_index s') = Suc m" by (simp_all add: ci jm)
  have ne: "StrCat ''chunk_'' (int i) \<noteq> StrCat ''chunk_'' (int m)" if "i < m" for i
  proof
    assume e: "StrCat ''chunk_'' (int i) = StrCat ''chunk_'' (int m)"
    from that j have "0 \<le> int i" "int i \<le> kint64max" "0 \<le> int m" "int m \<le> kint64max"
      by (simp_all add: jm)
    from chunk_name_inj[OF this e] that show False by simp
  qed
  from cp have names: "\<And>name. map_of (files s) (CommittedChunksDirectory, name) \<noteq> None \<longleftrightarrow>
        (\<exists>i < m. name = StrCat ''chunk_'' (int i))"
    and seq: "chunk_sequence s m = concat (take (cursor s) (elements s))"
    unfolding committed_prefix_def m by blast+
  note com' = com[unfolded jm]
  have a: "map_of (files s') (CommittedChunksDirectory, name) \<noteq> None \<longleftrightarrow>
        (\<exists>i < Suc m. name = StrCat ''chunk_'' (int i))" for name
  proof (cases "name = StrCat ''chunk_'' (int m)")
    case True
    then have "\<exists>i < Suc m. name = StrCat ''chunk_'' (int i)" by blast
    moreover from True have "map_of (files s') (CommittedChunksDirectory, name) \<noteq> None"
      by (simp add: com')
    ultimately show ?thesis by simp
  next
    case False
    then have "(\<exists>i < Suc m. name = StrCat ''chunk_'' (int i)) \<longleftrightarrow>
        (\<exists>i < m. name = StrCat ''chunk_'' (int i))"
      by (auto simp: less_Suc_eq)
    moreover from False have "map_of (files s') (CommittedChunksDirectory, name) =
        map_of (files s) (CommittedChunksDirectory, name)" by (simp add: com')
    ultimately show ?thesis using names[of name] by simp
  qed
  have old: "map (\<lambda>i. file_contents (files s') (CommittedChunksDirectory, StrCat ''chunk_'' (int i))) [0..<m] =
      map (\<lambda>i. file_contents (files s) (CommittedChunksDirectory, StrCat ''chunk_'' (int i))) [0..<m]"
  proof (rule map_cong[OF refl])
    fix i assume "i \<in> set [0..<m]"
    then have "i < m" by simp
    from ne[OF this]
    show "file_contents (files s') (CommittedChunksDirectory, StrCat ''chunk_'' (int i)) =
          file_contents (files s) (CommittedChunksDirectory, StrCat ''chunk_'' (int i))"
      by (simp add: file_contents_def com')
  qed
  have new: "file_contents (files s') (CommittedChunksDirectory, StrCat ''chunk_'' (int m)) = chunk_content s"
    by (simp add: file_contents_def com')
  have "chunk_sequence s' (Suc m) = chunk_sequence s m @ chunk_content s"
    unfolding chunk_sequence_def by (simp add: old new)
  also have "\<dots> = concat (take (cursor s) (elements s)) @
      concat (take (chunk_count s) (drop (cursor s) (elements s)))"
    by (simp add: seq chunk_content_def)
  also have "\<dots> = concat (take (cursor s + chunk_count s) (elements s))"
    by (simp add: take_add)
  finally have b: "chunk_sequence s' (Suc m) = concat (take (cursor s') (elements s'))"
    by (simp add: cu el)
  show ?thesis
    unfolding committed_prefix_def m
  proof (intro conjI allI)
    fix name
    show "map_of (files s') (CommittedChunksDirectory, name) \<noteq> None \<longleftrightarrow>
        (\<exists>i < Suc m. name = StrCat ''chunk_'' (int i))" by (rule a)
    show "chunk_sequence s' (Suc m) = concat (take (cursor s') (elements s'))" by (rule b)
  qed
qed

lemma Restore_fresh:
  assumes "fault s = None" "\<And>n. map_of (files s) (CheckpointsDirectory, n) = None"
  shows "Restore s = (OkStatus, s)"
proof -
  have "children CheckpointsDirectory (files s) = []"
  proof (cases "children CheckpointsDirectory (files s)")
    case Nil
    then show ?thesis .
  next
    case (Cons a l)
    then have "a \<in> set (children CheckpointsDirectory (files s))" by simp
    then have False by (simp add: children_iff assms(2))
    then show ?thesis ..
  qed
  with assms(1) show ?thesis by (simp add: Restore_def LastCheckpointIndex_def)
qed

lemma recover_near:
  assumes cl: "clean s" and nr: "near (chunk_index s) (files s) F"
    and mx: "0 < max_chunk_size_bytes s"
    and bd: "chunk_index s + int (length (elements s) - cursor s) < kint64max"
    and run: "WriteSnapshotFn_loop s = Some (OkStatus, fin)"
  shows "recovers (max_chunk_size_bytes s) (estimated_size_bytes s) (elements s) fin F"
proof -
  from cl have st: "steady s" by (simp add: clean_def)
  from restart_near[OF cl nr] obtain r where
    rs: "Restore (SnapshotStreamWriter (max_chunk_size_bytes s) (estimated_size_bytes s) (elements s) F)
           = (OkStatus, r)" and ra: "resumes_as s r" by blast
  from WriteSnapshotFn_loop_bisim[OF st ra mx bd] obtain fin' fr where
    ls: "WriteSnapshotFn_loop s = Some (OkStatus, fin')"
    and lr: "WriteSnapshotFn_loop r = Some (OkStatus, fr)" and fr: "status fr = OkStatus" "cancel_in fr = None"
    and eq': "\<forall>n. map_of (files fr) (CommittedChunksDirectory, n) =
          map_of (files fin') (CommittedChunksDirectory, n)"
    by (elim exE conjE)
  from ls run have "fin' = fin" by simp
  with eq' have eq: "\<forall>n. map_of (files fr) (CommittedChunksDirectory, n) =
          map_of (files fin) (CommittedChunksDirectory, n)" by simp
  show ?thesis
    unfolding recovers_def
    by (intro exI[of _ fr] conjI) (rule WriteSnapshotFn_resumed[OF rs lr fr], rule eq)
qed

lemma recover_after:
  assumes cl: "clean s"
    and ac: "after_checkpoint (chunk_index s) (cursor s + chunk_count s) (chunk_content s) (files s) F"
    and es: "s' = s\<lparr>chunk_index := chunk_index s + 1, chunk_size_bytes := 0,
            end_of_sequence := False, cursor := cursor s + chunk_count s,
            files := files s', history := H\<rparr>"
    and st': "steady s'"
    and com: "\<And>n. map_of (files s') (CommittedChunksDirectory, n) =
        (if n = StrCat ''chunk_'' (chunk_index s) then Some (chunk_content s)
         else map_of (files s) (CommittedChunksDirectory, n))"
    and mx: "0 < max_chunk_size_bytes s'"
    and bd: "chunk_index s' + int (length (elements s') - cursor s') < kint64max"
    and run: "WriteSnapshotFn_loop s' = Some (OkStatus, fin)"
  shows "recovers (max_chunk_size_bytes s) (estimated_size_bytes s) (elements s) fin F"
proof -
  from cl have st: "steady s" by (simp add: clean_def)
  then have z: "chunk_size_bytes s = 0" "\<not> end_of_sequence s" by (simp_all add: steady_def)
  from restart_after[OF cl ac] obtain r where
    rs: "Restore (SnapshotStreamWriter (max_chunk_size_bytes s) (estimated_size_bytes s) (elements s) F)
           = (OkStatus, r)"
    and er: "r = s\<lparr>chunk_index := chunk_index s + 1, cursor := cursor s + chunk_count s,
                  files := files r, history := history r\<rparr>"
    and cp: "checkpoints_parse (files r)"
    and co: "\<forall>n. map_of (files r) (CommittedChunksDirectory, n) =
        (if n = StrCat ''chunk_'' (chunk_index s) then Some (chunk_content s)
         else map_of (files s) (CommittedChunksDirectory, n))"
    by (elim exE conjE)
  have core: "r = s'\<lparr>files := files r, history := history r\<rparr>"
    using es er z by (cases s, cases s', cases r) simp
  have ra: "resumes_as s' r"
    unfolding resumes_as_def
  proof (intro conjI allI impI)
    show "r = s'\<lparr>files := files r, history := history r\<rparr>" by (rule core)
    show "checkpoints_parse (files r)" by (rule cp)
    fix n
    show "map_of (files r) (CommittedChunksDirectory, n) = map_of (files s') (CommittedChunksDirectory, n)"
      using co[THEN spec, of n] com[of n] by simp
  qed
  from WriteSnapshotFn_loop_bisim[OF st' ra mx bd] obtain fin' fr where
    ls: "WriteSnapshotFn_loop s' = Some (OkStatus, fin')"
    and lr: "WriteSnapshotFn_loop r = Some (OkStatus, fr)" and fr: "status fr = OkStatus" "cancel_in fr = None"
    and eq': "\<forall>n. map_of (files fr) (CommittedChunksDirectory, n) =
          map_of (files fin') (CommittedChunksDirectory, n)"
    by (elim exE conjE)
  from ls run have "fin' = fin" by simp
  with eq' have eq: "\<forall>n. map_of (files fr) (CommittedChunksDirectory, n) =
          map_of (files fin) (CommittedChunksDirectory, n)" by simp
  show ?thesis
    unfolding recovers_def
    by (intro exI[of _ fr] conjI) (rule WriteSnapshotFn_resumed[OF rs lr fr], rule eq)
qed

lemma clean_run:
  assumes "clean s" "committed_prefix s" "0 < max_chunk_size_bytes s"
    and "chunk_index s + int (length (elements s) - cursor s) < kint64max"
  shows "\<exists>fin hs. WriteSnapshotFn_loop s = Some (OkStatus, fin) \<and>
     status fin = OkStatus \<and> cancel_in fin = None \<and> history fin = history s @ hs \<and>
     (\<forall>F \<in> set hs. recovers (max_chunk_size_bytes s) (estimated_size_bytes s) (elements s) fin F) \<and>
     committed_prefix fin \<and> elements fin = elements s \<and> length (elements s) \<le> cursor fin"
  using assms
proof (induction "length (elements s) - cursor s" arbitrary: s rule: less_induct)
  case less
  note cl = less.prems(1) and cp = less.prems(2) and mx = less.prems(3) and bd = less.prems(4)
  from cl have st: "steady s" and th: "snapshot_thread s"
    and unc: "\<And>n. map_of (files s) (UncommittedChunksDirectory, n) = None"
    by (simp_all add: clean_def)
  let ?j = "chunk_index s"
  let ?name = "StrCat ''chunk_'' ?j"
  let ?b = "chunk_exhausts s" and ?c = "chunk_content s" and ?p = "cursor s + chunk_count s"
  from st have j: "0 \<le> ?j" "?j \<le> kint64max" and cps: "checkpoints_parse (files s)"
    by (auto simp: steady_def)
  from WriteChunk_steady[OF st] obtain s' hs where
    ws: "WriteChunk s = (OkStatus, s')"
    and es: "s' = s\<lparr>chunk_index := ?j + 1, chunk_size_bytes := 0,
            end_of_sequence := ?b, cursor := ?p, files := files s', history := history s @ hs\<rparr>"
    and hs: "\<forall>F \<in> set hs. near ?j (files s) F \<or> (\<not> ?b \<and> after_checkpoint ?j ?p ?c (files s) F)"
    and fs: "if ?b then near ?j (files s) (files s')
             else after_checkpoint ?j ?p ?c (files s) (files s') \<and>
          (\<forall>n i. map_of (files s') (CheckpointsDirectory, n) \<noteq> None \<longrightarrow>
             GetFileIndex n ''checkpoint'' = Inr i \<longrightarrow> ?j \<le> i)"
    and us: "map_of (files s') (UncommittedChunksDirectory, ?name) = None"
    and cs: "map_of (files s') (CommittedChunksDirectory, ?name) = Some ?c"
    by (elim exE conjE)
  note ns = WriteChunk_steady_next[OF st es]
  have ks: "map_of (files s') (CommittedChunksDirectory, n) = map_of (files s) (CommittedChunksDirectory, n)"
    if "n \<noteq> ?name" for n
    using fs that by (auto simp: near_committed after_checkpoint_committed split: if_splits)
  have com: "map_of (files s') (CommittedChunksDirectory, n) =
        (if n = ?name then Some ?c else map_of (files s) (CommittedChunksDirectory, n))" for n
    using ks[of n] cs by simp
  have cp': "committed_prefix s'"
    by (rule committed_prefix_step[OF st cp ns(1) ns(2) ns(3) com])
  have ls: "WriteSnapshotFn_loop s = WriteSnapshotFn_loop s'"
    by (rule WriteSnapshotFn_loop_continue[OF st ws])
  show ?case
  proof (cases ?b)
    case True
    have stop: "WriteSnapshotFn_loop s' = Some (OkStatus, s')"
      using ns(5,7) True by (intro WriteSnapshotFn_loop_stop) simp_all
    with ls have run: "WriteSnapshotFn_loop s = Some (OkStatus, s')" by simp
    have rec: "\<forall>F \<in> set hs. recovers (max_chunk_size_bytes s) (estimated_size_bytes s) (elements s) s' F"
    proof
      fix F assume "F \<in> set hs"
      with hs True have "near ?j (files s) F" by blast
      from recover_near[OF cl this mx bd run]
      show "recovers (max_chunk_size_bytes s) (estimated_size_bytes s) (elements s) s' F" .
    qed
    from True have "length (elements s) \<le> ?p"
      by (simp add: chunk_exhausts_def)
    then have full: "length (elements s) \<le> cursor s'" by (simp add: ns(2))
    show ?thesis
    proof (intro exI[of _ s'] exI[of _ hs] conjI)
      show "WriteSnapshotFn_loop s = Some (OkStatus, s')" by (rule run)
      show "status s' = OkStatus" by (rule ns(6))
      show "cancel_in s' = None" by (rule ns(5))
      show "history s' = history s @ hs" by (rule ns(9))
      show "\<forall>F \<in> set hs. recovers (max_chunk_size_bytes s) (estimated_size_bytes s) (elements s) s' F"
        by (rule rec)
      show "committed_prefix s'" by (rule cp')
      show "elements s' = elements s" by (rule ns(3))
      show "length (elements s) \<le> cursor s'" by (rule full)
    qed
  next
    case False
    note pos = chunk_count_pos[OF st mx False]
    from pos bd have lt: "?j + 1 < kint64max" by linarith
    from fs False have acs: "after_checkpoint ?j ?p ?c (files s) (files s')"
      and pruned: "\<And>n i. map_of (files s') (CheckpointsDirectory, n) \<noteq> None \<Longrightarrow>
             GetFileIndex n ''checkpoint'' = Inr i \<Longrightarrow> ?j \<le> i"
      by simp_all
    have st': "steady s'"
      by (rule ns(12)[OF False lt checkpoints_parse_after[OF acs cps j]])
    have es': "s' = s\<lparr>chunk_index := ?j + 1, chunk_size_bytes := 0,
            end_of_sequence := False, cursor := ?p, files := files s', history := history s @ hs\<rparr>"
      using es False by simp
    have m: "length (elements s') - cursor s' < length (elements s) - cursor s"
      using pos by (simp add: ns(2,3))
    have bd': "chunk_index s' + int (length (elements s') - cursor s') < kint64max"
      using pos bd by (simp add: ns(1,2,3))
    have mx': "0 < max_chunk_size_bytes s'" using mx by (simp add: ns(4))
    have cl': "clean s'"
      unfolding clean_def
    proof (intro conjI allI)
      show "steady s'" by (rule st')
      show "snapshot_thread s'" using th by (simp add: ns(11))
      fix n
      show "map_of (files s') (UncommittedChunksDirectory, n) = None"
      proof (cases "n = ?name")
        case True
        with us show ?thesis by simp
      next
        case False
        with acs have "map_of (files s') (UncommittedChunksDirectory, n) =
            map_of (files s) (UncommittedChunksDirectory, n)"
          by (simp add: after_checkpoint_def)
        with unc[of n] show ?thesis by simp
      qed
    next
      have ne0: "chunk_index s' \<noteq> 0" using j by (simp add: ns(1))
      have prev: "chunk_index s' - 1 = ?j" by (simp add: ns(1))
      have a: "map_of (files s') (CheckpointPath ?j) = Some [Variant (cursor s')]"
        using acs by (simp add: after_checkpoint_def ns(2))
      have b: "map_of (files s') (CheckpointsDirectory, n) = None"
        if d: "(CheckpointsDirectory, n) \<noteq> CheckpointPath ?j" for n
      proof (rule ccontr)
        assume pr: "map_of (files s') (CheckpointsDirectory, n) \<noteq> None"
        from acs d have "map_of (files s') (CheckpointsDirectory, n) = map_of (files s) (CheckpointsDirectory, n) \<or>
          (map_of (files s') (CheckpointsDirectory, n) = None \<and>
           (\<exists>i. GetFileIndex n ''checkpoint'' = Inr i \<and> i < ?j))"
          unfolding after_checkpoint_def by blast
        with pr have same: "map_of (files s) (CheckpointsDirectory, n) \<noteq> None" by auto
        have j0: "?j \<noteq> 0"
        proof
          assume "?j = 0"
          with cl have "map_of (files s) (CheckpointsDirectory, n) = None" by (simp add: clean_def)
          with same show False by simp
        qed
        with cl have only: "\<And>n. (CheckpointsDirectory, n) \<noteq> CheckpointPath (?j - 1) \<Longrightarrow>
              map_of (files s) (CheckpointsDirectory, n) = None"
          by (simp add: clean_def)
        have "(CheckpointsDirectory, n) = CheckpointPath (?j - 1)"
        proof (rule ccontr)
          assume "(CheckpointsDirectory, n) \<noteq> CheckpointPath (?j - 1)"
          from only[OF this] same show False by simp
        qed
        then have "n = snd (CheckpointPath (?j - 1))" by (simp add: prod_eq_iff)
        moreover from j0 j have "0 \<le> ?j - 1" "?j - 1 \<le> kint64max" by simp_all
        ultimately have "GetFileIndex n ''checkpoint'' = Inr (?j - 1)"
          using CheckpointPath_parses[of "?j - 1"] by simp
        from pruned[OF pr this] show False by simp
      qed
      show "if chunk_index s' = 0
        then cursor s' = 0 \<and> (\<forall>n. map_of (files s') (CheckpointsDirectory, n) = None)
        else map_of (files s') (CheckpointPath (chunk_index s' - 1)) = Some [Variant (cursor s')] \<and>
           (\<forall>n. (CheckpointsDirectory, n) \<noteq> CheckpointPath (chunk_index s' - 1) \<longrightarrow>
              map_of (files s') (CheckpointsDirectory, n) = None)"
        unfolding prev using ne0 a b by simp
    qed
    from less.hyps[OF m cl' cp' mx' bd'] obtain fin hs' where
      run': "WriteSnapshotFn_loop s' = Some (OkStatus, fin)"
      and fin: "status fin = OkStatus" "cancel_in fin = None" "history fin = history s' @ hs'"
      and rec': "\<forall>F \<in> set hs'. recovers (max_chunk_size_bytes s') (estimated_size_bytes s') (elements s') fin F"
      and cpf: "committed_prefix fin" and elf: "elements fin = elements s'"
      and full: "length (elements s') \<le> cursor fin"
      by (elim exE conjE)
    from ls run' have run: "WriteSnapshotFn_loop s = Some (OkStatus, fin)" by simp
    have rec: "\<forall>F \<in> set (hs @ hs'). recovers (max_chunk_size_bytes s) (estimated_size_bytes s) (elements s) fin F"
    proof
      fix F assume "F \<in> set (hs @ hs')"
      then consider "F \<in> set hs" | "F \<in> set hs'" by auto
      then show "recovers (max_chunk_size_bytes s) (estimated_size_bytes s) (elements s) fin F"
      proof cases
        case 1
        with hs have "near ?j (files s) F \<or> after_checkpoint ?j ?p ?c (files s) F" by blast
        then show ?thesis
        proof
          assume "near ?j (files s) F"
          from recover_near[OF cl this mx bd run] show ?thesis .
        next
          assume "after_checkpoint ?j ?p ?c (files s) F"
          from recover_after[OF cl this es' st' com mx' bd' run'] show ?thesis .
        qed
      next
        case 2
        with rec' show ?thesis by (simp add: ns(3,4,10))
      qed
    qed
    show ?thesis
    proof (intro exI[of _ fin] exI[of _ "hs @ hs'"] conjI)
      show "WriteSnapshotFn_loop s = Some (OkStatus, fin)" by (rule run)
      show "status fin = OkStatus" by (rule fin(1))
      show "cancel_in fin = None" by (rule fin(2))
      show "history fin = history s @ hs @ hs'" by (simp add: fin(3) ns(9))
      show "\<forall>F \<in> set (hs @ hs'). recovers (max_chunk_size_bytes s) (estimated_size_bytes s) (elements s) fin F"
        by (rule rec)
      show "committed_prefix fin" by (rule cpf)
      show "elements fin = elements s" by (simp add: elf ns(3))
      show "length (elements s) \<le> cursor fin" using full by (simp add: ns(3))
    qed
  qed
qed

declare no_fault_calls [simp del] TF_RETURN_IF_ERROR_simps [simp del] TF_ASSIGN_OR_RETURN_simps [simp del]

section \<open>Claims\<close>

subsection \<open>C9: parsing the index of a file name\<close>

text \<open>
  As stated, C9 says that parsing succeeds exactly on the names of the form
  \<^verbatim>\<open><prefix>_<digits>\<close>. Two names show that it does not: \<^verbatim>\<open>xchunk_3\<close> is not of that form and
  parses to 3, since the match is not anchored at the start of the name; and
  \<^verbatim>\<open>chunk_9223372036854775808\<close> is of that form and fails, since the number does not fit
  \<^verbatim>\<open>int64_t\<close>.
\<close>

theorem GetFileIndex_counterexample:
  "GetFileIndex ''xchunk_3'' ''chunk'' = Inr 3 \<and> \<not> matches_prefix_digits ''xchunk_3'' ''chunk'' \<and>
   GetFileIndex ''chunk_9223372036854775808'' ''chunk'' = Inl INTERNAL \<and>
   matches_prefix_digits ''chunk_9223372036854775808'' ''chunk''"
  by code_simp

text \<open>
  Claim C9, amended. Parsing a name of the form \<^verbatim>\<open><prefix>_<digits>\<close> succeeds with the
  number the digits denote when that number is at most \<open>2^63 - 1\<close>, and is an internal
  error when it is larger. Parsing a name that does not end in \<^verbatim>\<open><prefix>_<digits>\<close> is an
  internal error. When no call to a collaborator fails and the checkpoints directory holds
  a name that does not parse, \<^verbatim>\<open>WriteSnapshotFn\<close> returns the internal error and leaves the
  object and the files as they were: no chunk is written.
\<close>

theorem GetFileIndex_pattern:
  "(matches_prefix_digits filename prefix \<and> decimal_value (drop (length prefix + 1) filename) \<le> kint64max
      \<longrightarrow> GetFileIndex filename prefix = Inr (decimal_value (drop (length prefix + 1) filename))) \<and>
   (matches_prefix_digits filename prefix \<and> kint64max < decimal_value (drop (length prefix + 1) filename)
      \<longrightarrow> GetFileIndex filename prefix = Inl INTERNAL) \<and>
   ((\<nexists>stem ds. other = stem @ prefix @ ''_'' @ ds \<and> ds \<noteq> [] \<and> list_all is_digit ds)
      \<longrightarrow> GetFileIndex other prefix = Inl INTERNAL) \<and>
   (fault s = None \<and> name \<in> set (children CheckpointsDirectory (files s)) \<and>
    GetFileIndex name ''checkpoint'' = Inl INTERNAL
      \<longrightarrow> WriteSnapshotFn s = Some (Error INTERNAL, s))"
proof (intro conjI impI)
  assume "matches_prefix_digits filename prefix \<and>
    decimal_value (drop (length prefix + 1) filename) \<le> kint64max"
  then show "GetFileIndex filename prefix = Inr (decimal_value (drop (length prefix + 1) filename))"
    using GetFileIndex_matches[of filename prefix] by (simp add: Let_def)
next
  assume "matches_prefix_digits filename prefix \<and>
    kint64max < decimal_value (drop (length prefix + 1) filename)"
  then show "GetFileIndex filename prefix = Inl INTERNAL"
    using GetFileIndex_matches[of filename prefix] by (simp add: Let_def)
next
  assume "\<nexists>stem ds. other = stem @ prefix @ ''_'' @ ds \<and> ds \<noteq> [] \<and> list_all is_digit ds"
  then show "GetFileIndex other prefix = Inl INTERNAL"
    by (rule GetFileIndex_no_suffix)
next
  assume "fault s = None \<and> name \<in> set (children CheckpointsDirectory (files s)) \<and>
    GetFileIndex name ''checkpoint'' = Inl INTERNAL"
  then show "WriteSnapshotFn s = Some (Error INTERNAL, s)"
    using WriteSnapshotFn_malformed_checkpoint[of s name INTERNAL] by blast
qed

theorem GetFileIndex_pattern_witness:
  "GetFileIndex ''chunk_12'' ''chunk'' = Inr 12 \<and>
   GetFileIndex ''chunk_9223372036854775808'' ''chunk'' = Inl INTERNAL \<and>
   GetFileIndex ''checkpoint_abc'' ''checkpoint'' = Inl INTERNAL \<and>
   WriteSnapshotFn malformed_example = Some (Error INTERNAL, malformed_example)"
proof -
  have m1: "matches_prefix_digits ''chunk_12'' ''chunk''" by code_simp
  have v1: "decimal_value (drop (length ''chunk'' + 1) ''chunk_12'') = 12" by code_simp
  have m2: "matches_prefix_digits ''chunk_9223372036854775808'' ''chunk''" by code_simp
  have v2: "decimal_value (drop (length ''chunk'' + 1) ''chunk_9223372036854775808'') = 9223372036854775808"
    by code_simp
  have n3: "\<nexists>stem ds. ''checkpoint_abc'' = stem @ ''checkpoint'' @ ''_'' @ ds \<and> ds \<noteq> [] \<and> list_all is_digit ds"
  proof
    assume "\<exists>stem ds. ''checkpoint_abc'' = stem @ ''checkpoint'' @ ''_'' @ ds \<and> ds \<noteq> [] \<and> list_all is_digit ds"
    then obtain stem ds where e: "''checkpoint_abc'' = stem @ ''checkpoint'' @ ''_'' @ ds"
      and d: "ds \<noteq> []" "list_all is_digit ds" by blast
    from e d(1) have "last ds = last ''checkpoint_abc''" by (metis append_is_Nil_conv last_appendR)
    then have "last ds = CHR ''c''" by simp
    moreover from d have "is_digit (last ds)" by (simp add: list_all_iff)
    ultimately show False by (simp add: is_digit_def)
  qed
  have f4: "fault malformed_example = None"
    and c4: "''checkpoint_abc'' \<in> set (children CheckpointsDirectory (files malformed_example))"
    by (simp_all add: malformed_example_def SnapshotStreamWriter_def children_def)
  have p1: "GetFileIndex ''chunk_12'' ''chunk'' = Inr 12"
    using GetFileIndex_pattern[THEN conjunct1, of "''chunk_12''" "''chunk''"] m1 v1
    by (simp add: kint64max_def)
  have p2: "GetFileIndex ''chunk_9223372036854775808'' ''chunk'' = Inl INTERNAL"
    using GetFileIndex_pattern[THEN conjunct2, THEN conjunct1, of "''chunk_9223372036854775808''" "''chunk''"]
      m2 v2
    by (simp add: kint64max_def)
  have p3: "GetFileIndex ''checkpoint_abc'' ''checkpoint'' = Inl INTERNAL"
    using GetFileIndex_pattern[THEN conjunct2, THEN conjunct2, THEN conjunct1,
        of "''checkpoint_abc''" "''checkpoint''"] n3
    by blast
  have p4: "WriteSnapshotFn malformed_example = Some (Error INTERNAL, malformed_example)"
    using GetFileIndex_pattern[THEN conjunct2, THEN conjunct2, THEN conjunct2,
        of malformed_example "''checkpoint_abc''"] f4 c4 p3
    by blast
  from p1 p2 p3 p4 show ?thesis by blast
qed

subsection \<open>C2: the commit protocol\<close>

text \<open>
  As stated, C2 says that \<open>chunk_index\<close> is one more after every commit. The counter is an
  \<^verbatim>\<open>int64_t\<close>: a writer that resumed from \<^verbatim>\<open>checkpoint_9223372036854775806\<close> writes the chunk of
  index \<open>2^63 - 1\<close>, and committing it takes the counter to \<open>- 2^63\<close>.
\<close>

theorem CommitChunk_counterexample:
  "fst (CommitChunk (UncommittedChunksDirectory, ''chunk_9223372036854775807'') commit_overflow_example)
     = OkStatus \<and>
   chunk_index commit_overflow_example = 9223372036854775807 \<and>
   chunk_index (snd (CommitChunk (UncommittedChunksDirectory, ''chunk_9223372036854775807'')
     commit_overflow_example)) = - 9223372036854775808 \<and>
   chunk_index (snd (CommitChunk (UncommittedChunksDirectory, ''chunk_9223372036854775807'')
     commit_overflow_example)) \<noteq> chunk_index commit_overflow_example + 1"
  unfolding commit_overflow_example_def
  by code_simp

text \<open>
  Claim C2, amended. \<^verbatim>\<open>CommitChunk\<close> is called on the chunk file in the uncommitted directory.
  \<^verbatim>\<open>ShouldSave\<close> holds exactly when the source is not exhausted and the status read under
  the mutex is ok. When it holds and \<^verbatim>\<open>Save\<close> fails, \<^verbatim>\<open>CommitChunk\<close> ends with the result of
  \<^verbatim>\<open>Save\<close>. Whenever \<^verbatim>\<open>CommitChunk\<close> fails, the chunk file is still in the uncommitted
  directory, the committed directory has no new file of its name, and \<open>chunk_index\<close> and the
  byte counter are unchanged. Whenever it succeeds, the file has moved from the uncommitted
  to the committed directory, \<open>chunk_index\<close> is one more provided that it was below
  \<open>2^63 - 1\<close> (and an \<^verbatim>\<open>int64_t\<close>), and the byte counter is 0; if
  \<^verbatim>\<open>ShouldSave\<close> held, the checkpoint named after the old \<open>chunk_index\<close> holds the position
  of the source, and if it did not hold (the source was exhausted, or the status was not
  ok), the checkpoints directory is unchanged.
\<close>

theorem CommitChunk_protocol:
  assumes "CommitChunk chunk_file_path s = (st, s')"
    and "fst chunk_file_path = UncommittedChunksDirectory"
  shows "(fst (ShouldSave s) \<longleftrightarrow> \<not> end_of_sequence s \<and> ok (status (mutex_lock s))) \<and>
    (fst (ShouldSave s) \<and> fst (Save (snd (ShouldSave s))) \<noteq> OkStatus \<longrightarrow>
       (st, s') = Save (snd (ShouldSave s))) \<and>
    (st \<noteq> OkStatus \<longrightarrow>
       chunk_index s' = chunk_index s \<and> chunk_size_bytes s' = chunk_size_bytes s \<and>
       map_of (files s') chunk_file_path = map_of (files s) chunk_file_path \<and>
       map_of (files s') (CommittedChunksDirectory, snd chunk_file_path) =
         map_of (files s) (CommittedChunksDirectory, snd chunk_file_path)) \<and>
    (st = OkStatus \<longrightarrow>
       (- kint64max - 1 \<le> chunk_index s \<and> chunk_index s < kint64max \<longrightarrow>
          chunk_index s' = chunk_index s + 1) \<and>
       chunk_size_bytes s' = 0 \<and>
       map_of (files s) chunk_file_path \<noteq> None \<and>
       map_of (files s') chunk_file_path = None \<and>
       map_of (files s') (CommittedChunksDirectory, snd chunk_file_path) =
         map_of (files s) chunk_file_path) \<and>
    (st = OkStatus \<and> fst (ShouldSave s) \<longrightarrow>
       map_of (files s') (CheckpointPath (chunk_index s)) = Some [Variant (cursor s)]) \<and>
    (\<not> fst (ShouldSave s) \<longrightarrow>
       (\<forall>name. map_of (files s') (CheckpointsDirectory, name) =
          map_of (files s) (CheckpointsDirectory, name)))"
proof -
  note c = CommitChunk_cases[OF assms]
  have a: "fst (ShouldSave s) \<longleftrightarrow> \<not> end_of_sequence s \<and> ok (status (mutex_lock s))"
    by (simp add: ShouldSave_def Let_def)
  have b: "(st, s') = Save (snd (ShouldSave s))"
    if "fst (ShouldSave s)" "fst (Save (snd (ShouldSave s))) \<noteq> OkStatus"
  proof -
    define s1 where "s1 = snd (ShouldSave s)"
    have s1: "ShouldSave s = (True, s1)" using that(1) by (simp add: s1_def prod_eq_iff)
    obtain st2 s2 where s2: "Save s1 = (st2, s2)" by (cases "Save s1")
    have "st2 \<noteq> OkStatus" using that(2) s2 by (simp add: s1_def)
    then obtain c where "st2 = Error c" by (cases st2) simp_all
    with assms(1) s1 s2 show ?thesis
      by (simp add: CommitChunk_def Let_def TF_RETURN_IF_ERROR_def)
  qed
  have d: "chunk_index s' = chunk_index s + 1"
    if "st = OkStatus" "- kint64max - 1 \<le> chunk_index s" "chunk_index s < kint64max"
    using c(1)[OF that(1)] that(2,3) by (simp add: int64_t_id)
  from c(1) have e: "st = OkStatus \<Longrightarrow> chunk_size_bytes s' = 0 \<and>
       map_of (files s) chunk_file_path \<noteq> None \<and>
       map_of (files s') chunk_file_path = None \<and>
       map_of (files s') (CommittedChunksDirectory, snd chunk_file_path) =
         map_of (files s) chunk_file_path" by blast
  from a b c(2-) d e show ?thesis by blast
qed

theorem CommitChunk_protocol_witness:
  "fst (ShouldSave commit_example) \<and>
   chunk_index (snd (CommitChunk (UncommittedChunksDirectory, ''chunk_1'') commit_example)) = 2 \<and>
   chunk_size_bytes (snd (CommitChunk (UncommittedChunksDirectory, ''chunk_1'') commit_example)) = 0 \<and>
   map_of (files (snd (CommitChunk (UncommittedChunksDirectory, ''chunk_1'') commit_example)))
     (CommittedChunksDirectory, ''chunk_1'') = Some [Data 1, Data 2] \<and>
   map_of (files (snd (CommitChunk (UncommittedChunksDirectory, ''chunk_1'') commit_example)))
     (CheckpointsDirectory, ''checkpoint_1'') = Some [Variant 2]"
proof -
  define p :: path where "p = (UncommittedChunksDirectory, ''chunk_1'')"
  have run: "CommitChunk p commit_example = (fst (CommitChunk p commit_example), snd (CommitChunk p commit_example))"
    by simp
  have dir: "fst p = UncommittedChunksDirectory" by (simp add: p_def)
  have ok: "fst (CommitChunk p commit_example) = OkStatus"
    unfolding p_def commit_example_def by code_simp
  have sh: "fst (ShouldSave commit_example)"
    unfolding commit_example_def by code_simp
  have before: "map_of (files commit_example) p = Some [Data 1, Data 2]"
    "chunk_index commit_example = 1" "cursor commit_example = 2"
    by (simp_all add: commit_example_def SnapshotStreamWriter_def p_def)
  have name: "CheckpointPath 1 = (CheckpointsDirectory, ''checkpoint_1'')"
    by code_simp
  from CommitChunk_protocol[OF run dir] ok sh before name show ?thesis
    by (simp add: p_def kint64max_def)
qed

subsection \<open>C4: the index of a checkpoint, and pruning\<close>

text \<open>
  Claim C4. A successful \<^verbatim>\<open>Save\<close> leaves the position of the source in the checkpoint
  file named after the current \<open>chunk_index\<close>, whose name parses back to that index (the
  index of the next chunk to be committed), does not change \<open>chunk_index\<close>, and leaves no
  file in the checkpoints directory whose index is less than \<open>chunk_index\<close>.
\<close>

theorem Save_checkpoint_index:
  assumes "Save s = (OkStatus, s')"
  shows "map_of (files s') (CheckpointPath (chunk_index s)) = Some [Variant (cursor s)] \<and>
    GetFileIndex (snd (CheckpointPath (chunk_index s))) ''checkpoint'' = Inr (chunk_index s) \<and>
    chunk_index s' = chunk_index s \<and>
    (\<forall>name index. map_of (files s') (CheckpointsDirectory, name) \<noteq> None \<longrightarrow>
       GetFileIndex name ''checkpoint'' = Inr index \<longrightarrow> \<not> index < chunk_index s')"
proof -
  note c = Save_cases[OF assms]
  have "chunk_index s' = chunk_index s" using c(1) by (simp add: env_step_iff)
  with c(3) show ?thesis by fastforce
qed

theorem Save_checkpoint_index_witness:
  "map_of (files (snd (Save save_example))) (CheckpointsDirectory, ''checkpoint_2'') = Some [Variant 2] \<and>
   map_of (files (snd (Save save_example))) (CheckpointsDirectory, ''checkpoint_1'') = None \<and>
   map_of (files (snd (Save save_example))) (CheckpointsDirectory, ''checkpoint_0'') = None"
proof -
  have "fst (Save save_example) = OkStatus"
    unfolding save_example_def by code_simp
  then have run: "Save save_example = (OkStatus, snd (Save save_example))"
    by (metis prod.collapse)
  have before: "chunk_index save_example = 2" "cursor save_example = 2"
    by (simp_all add: save_example_def SnapshotStreamWriter_def)
  have name: "CheckpointPath 2 = (CheckpointsDirectory, ''checkpoint_2'')"
    by code_simp
  have i0: "GetFileIndex ''checkpoint_0'' ''checkpoint'' = Inr 0"
    and i1: "GetFileIndex ''checkpoint_1'' ''checkpoint'' = Inr 1"
    by code_simp+
  note t = Save_checkpoint_index[OF run]
  from t before name have a: "map_of (files (snd (Save save_example))) (CheckpointsDirectory, ''checkpoint_2'') = Some [Variant 2]"
    by simp
  from t have ci: "chunk_index (snd (Save save_example)) = 2" using before by simp
  from t i0 ci have b: "map_of (files (snd (Save save_example))) (CheckpointsDirectory, ''checkpoint_0'') = None"
    by fastforce
  from t i1 ci have c: "map_of (files (snd (Save save_example))) (CheckpointsDirectory, ''checkpoint_1'') = None"
    by fastforce
  from a b c show ?thesis by simp
qed

subsection \<open>C5: the size of a chunk\<close>



subsection \<open>C1: reconciliation at startup\<close>

text \<open>
  As stated, C1 says that the resumed \<open>chunk_index\<close> is \<open>k + 1\<close> for every latest checkpoint
  index \<open>k\<close>. \<^verbatim>\<open>checkpoint_9223372036854775807\<close> is a name that parses, and the sum is an
  \<^verbatim>\<open>int64_t\<close>: the writer resumes with \<open>chunk_index\<close> \<open>- 2^63\<close>.
\<close>

theorem Restore_counterexample:
  "fst (LastCheckpointIndex restore_overflow_example) = Inr 9223372036854775807 \<and>
   fst (Restore restore_overflow_example) = OkStatus \<and>
   chunk_index (snd (Restore restore_overflow_example)) = - 9223372036854775808 \<and>
   chunk_index (snd (Restore restore_overflow_example)) \<noteq> 9223372036854775807 + 1"
  unfolding restore_overflow_example_def
  by code_simp

text \<open>
  Claim C1, amended. When \<^verbatim>\<open>Restore\<close> succeeds with latest checkpoint index \<open>k\<close>, every file of the
  uncommitted directory has a name that parses to a chunk index \<open>i\<close> and is gone from that
  directory; if \<open>i \<le> k\<close> the committed directory holds it under the same name, with its
  contents; if \<open>i > k\<close> the committed directory is as before at that name; and
  \<open>chunk_index\<close> is \<open>k + 1\<close> when \<open>k\<close> is below \<open>2^63 - 1\<close>.
\<close>

theorem Restore_reconciles:
  assumes "Restore s = (OkStatus, s')" and "fst (LastCheckpointIndex s) = Inr k"
  shows "(k < kint64max \<longrightarrow> chunk_index s' = k + 1) \<and>
    (\<forall>name contents. map_of (files s) (UncommittedChunksDirectory, name) = Some contents \<longrightarrow>
       (\<exists>i. GetFileIndex name ''chunk'' = Inr i \<and>
          map_of (files s') (UncommittedChunksDirectory, name) = None \<and>
          (i \<le> k \<longrightarrow> map_of (files s') (CommittedChunksDirectory, name) = Some contents) \<and>
          (k < i \<longrightarrow> map_of (files s') (CommittedChunksDirectory, name) =
                     map_of (files s) (CommittedChunksDirectory, name))))"
proof -
  note r = Restore_found(2)[OF assms refl]
  show ?thesis
  proof (intro conjI allI impI)
    assume "k < kint64max"
    moreover have "0 \<le> k" by (rule LastCheckpointIndex_nonneg[OF assms(2)])
    moreover have "chunk_index s' = int64_t (k + 1)" using r by blast
    ultimately show "chunk_index s' = k + 1" by (simp add: int64_t_id)
  next
    fix name contents
    assume c: "map_of (files s) (UncommittedChunksDirectory, name) = Some contents"
    then have "map_of (files s) (UncommittedChunksDirectory, name) \<noteq> None" by simp
    with r obtain i where i: "GetFileIndex name ''chunk'' = Inr i"
      "map_of (files s') (UncommittedChunksDirectory, name) = None"
      "map_of (files s') (CommittedChunksDirectory, name) =
         (if i \<le> k then map_of (files s) (UncommittedChunksDirectory, name)
          else map_of (files s) (CommittedChunksDirectory, name))"
      by blast
    have "(i \<le> k \<longrightarrow> map_of (files s') (CommittedChunksDirectory, name) = Some contents) \<and>
          (k < i \<longrightarrow> map_of (files s') (CommittedChunksDirectory, name) =
                     map_of (files s) (CommittedChunksDirectory, name))"
      using i(3) c by simp
    with i(1,2) show "\<exists>i. GetFileIndex name ''chunk'' = Inr i \<and>
          map_of (files s') (UncommittedChunksDirectory, name) = None \<and>
          (i \<le> k \<longrightarrow> map_of (files s') (CommittedChunksDirectory, name) = Some contents) \<and>
          (k < i \<longrightarrow> map_of (files s') (CommittedChunksDirectory, name) =
                     map_of (files s) (CommittedChunksDirectory, name))" by blast
  qed
qed

theorem Restore_reconciles_witness:
  "chunk_index (snd (Restore recovery_example)) = 6 \<and>
   map_of (files (snd (Restore recovery_example))) (CommittedChunksDirectory, ''chunk_3'') = Some [Data 3] \<and>
   map_of (files (snd (Restore recovery_example))) (CommittedChunksDirectory, ''chunk_5'') = Some [Data 5] \<and>
   map_of (files (snd (Restore recovery_example))) (CommittedChunksDirectory, ''chunk_7'') = None \<and>
   map_of (files (snd (Restore recovery_example))) (UncommittedChunksDirectory, ''chunk_3'') = None \<and>
   map_of (files (snd (Restore recovery_example))) (UncommittedChunksDirectory, ''chunk_5'') = None \<and>
   map_of (files (snd (Restore recovery_example))) (UncommittedChunksDirectory, ''chunk_7'') = None"
proof -
  define s' where "s' = snd (Restore recovery_example)"
  have "fst (Restore recovery_example) = OkStatus"
    unfolding recovery_example_def by code_simp
  then have run: "Restore recovery_example = (OkStatus, s')"
    by (simp add: s'_def prod_eq_iff)
  have k: "fst (LastCheckpointIndex recovery_example) = Inr 5"
    unfolding recovery_example_def by code_simp
  have before: "map_of (files recovery_example) (UncommittedChunksDirectory, ''chunk_3'') = Some [Data 3]"
    "map_of (files recovery_example) (UncommittedChunksDirectory, ''chunk_5'') = Some [Data 5]"
    "map_of (files recovery_example) (UncommittedChunksDirectory, ''chunk_7'') = Some [Data 7]"
    "map_of (files recovery_example) (CommittedChunksDirectory, ''chunk_7'') = None"
    by (simp_all add: recovery_example_def SnapshotStreamWriter_def)
  have idx: "GetFileIndex ''chunk_3'' ''chunk'' = Inr 3" "GetFileIndex ''chunk_5'' ''chunk'' = Inr 5"
    "GetFileIndex ''chunk_7'' ''chunk'' = Inr 7"
    by code_simp+
  note t = Restore_reconciles[OF run k]
  from t have a: "chunk_index s' = 6" by (simp add: kint64max_def)
  from t[THEN conjunct2, THEN spec, THEN spec, THEN mp, OF before(1)] idx(1)
  have b: "map_of (files s') (UncommittedChunksDirectory, ''chunk_3'') = None \<and>
     map_of (files s') (CommittedChunksDirectory, ''chunk_3'') = Some [Data 3]" by auto
  from t[THEN conjunct2, THEN spec, THEN spec, THEN mp, OF before(2)] idx(2)
  have c: "map_of (files s') (UncommittedChunksDirectory, ''chunk_5'') = None \<and>
     map_of (files s') (CommittedChunksDirectory, ''chunk_5'') = Some [Data 5]" by auto
  from t[THEN conjunct2, THEN spec, THEN spec, THEN mp, OF before(3)] idx(3) before(4)
  have d: "map_of (files s') (UncommittedChunksDirectory, ''chunk_7'') = None \<and>
     map_of (files s') (CommittedChunksDirectory, ''chunk_7'') = None" by auto
  from a b c d show ?thesis unfolding s'_def by simp
qed

subsection \<open>C7: the latest checkpoint\<close>

text \<open>
  Claim C7. When no call fails and every name of the (non-empty) checkpoints directory
  parses, \<^verbatim>\<open>LastCheckpointIndex\<close> is the maximum of the parsed indices. When the directory
  is empty it is \<^verbatim>\<open>NOT_FOUND\<close>, and \<^verbatim>\<open>Restore\<close> returns ok and leaves the object as it
  was. A newly constructed writer on such a file system has \<open>chunk_index\<close> 0 and the
  source at its start, and \<^verbatim>\<open>WriteSnapshotFn\<close> is the write loop started in that state.
\<close>

theorem LastCheckpointIndex_maximum:
  "(fault s = None \<and> children CheckpointsDirectory (files s) \<noteq> [] \<and>
    (\<forall>name \<in> set (children CheckpointsDirectory (files s)). \<exists>i. GetFileIndex name ''checkpoint'' = Inr i)
      \<longrightarrow> fst (LastCheckpointIndex s) =
            Inr (Max {i. \<exists>name \<in> set (children CheckpointsDirectory (files s)).
                       GetFileIndex name ''checkpoint'' = Inr i})) \<and>
   (fault s = None \<and> children CheckpointsDirectory (files s) = []
      \<longrightarrow> fst (LastCheckpointIndex s) = Inl NOT_FOUND \<and> Restore s = (OkStatus, s)) \<and>
   (children CheckpointsDirectory fs = []
      \<longrightarrow> chunk_index (SnapshotStreamWriter max_size size_of source fs) = 0 \<and>
          cursor (SnapshotStreamWriter max_size size_of source fs) = 0 \<and>
          WriteSnapshotFn (SnapshotStreamWriter max_size size_of source fs) =
            (case WriteSnapshotFn_loop (SnapshotStreamWriter max_size size_of source fs) of
               None \<Rightarrow> None
             | Some (Error c, s3) \<Rightarrow> Some (Error c, s3)
             | Some (OkStatus, s3) \<Rightarrow> (let s4 = mutex_lock s3 in Some (status s4, s4))))"
proof (intro conjI impI)
  let ?names = "children CheckpointsDirectory (files s)"
  let ?S = "{i. \<exists>name \<in> set ?names. GetFileIndex name ''checkpoint'' = Inr i}"
  assume a: "fault s = None \<and> ?names \<noteq> [] \<and>
    (\<forall>name \<in> set ?names. \<exists>i. GetFileIndex name ''checkpoint'' = Inr i)"
  obtain r s1 where l: "LastCheckpointIndex s = (r, s1)" by (cases "LastCheckpointIndex s")
  from LastCheckpointIndex_cases(2)[OF l] a
  have "r = LastCheckpointIndex_loop ?names 0" by simp
  with LastCheckpointIndex_loop_Inr[of ?names 0] a have r: "r = Inr (Max (insert 0 ?S))" by simp
  have fin: "finite ?S"
  proof -
    have "?S \<subseteq> (\<lambda>n. projr (GetFileIndex n ''checkpoint'')) ` set ?names" by force
    then show ?thesis by (rule finite_subset) simp
  qed
  from a obtain name where "name \<in> set ?names" by (cases ?names) auto
  with a obtain i where i: "i \<in> ?S" by blast
  then have ne: "?S \<noteq> {}" by blast
  have "0 \<le> i" using i GetFileIndex_Inr by blast
  then have "0 \<le> Max ?S" using Max_ge[OF fin i] by simp
  then have "Max (insert 0 ?S) = Max ?S" using fin ne by (simp add: max_def)
  with r l show "fst (LastCheckpointIndex s) = Inr (Max ?S)" by simp
next
  assume a: "fault s = None \<and> children CheckpointsDirectory (files s) = []"
  obtain r s1 where l: "LastCheckpointIndex s = (r, s1)" by (cases "LastCheckpointIndex s")
  from LastCheckpointIndex_cases(2)[OF l] a have "r = Inl NOT_FOUND" "s1 = s" by simp_all
  with l show "fst (LastCheckpointIndex s) = Inl NOT_FOUND" "Restore s = (OkStatus, s)"
    by (simp_all add: Restore_def)
next
  let ?w = "SnapshotStreamWriter max_size size_of source fs"
  assume a: "children CheckpointsDirectory fs = []"
  show "chunk_index ?w = 0" "cursor ?w = 0" by (simp_all add: SnapshotStreamWriter_def)
  have f: "fault ?w = None" and fs: "files ?w = fs" by (simp_all add: SnapshotStreamWriter_def)
  obtain r s1 where l: "LastCheckpointIndex ?w = (r, s1)" by (cases "LastCheckpointIndex ?w")
  from LastCheckpointIndex_cases(2)[OF l f] a fs have "r = Inl NOT_FOUND" "s1 = ?w" by simp_all
  with l have "Restore ?w = (OkStatus, ?w)" by (simp add: Restore_def)
  with f show "WriteSnapshotFn ?w =
            (case WriteSnapshotFn_loop ?w of
               None \<Rightarrow> None
             | Some (Error c, s3) \<Rightarrow> Some (Error c, s3)
             | Some (OkStatus, s3) \<Rightarrow> (let s4 = mutex_lock s3 in Some (status s4, s4)))"
    by (simp add: WriteSnapshotFn_def)
qed

theorem LastCheckpointIndex_maximum_witness:
  "fst (LastCheckpointIndex latest_example) = Inr 10 \<and>
   fst (LastCheckpointIndex first_run_example) = Inl NOT_FOUND \<and>
   Restore first_run_example = (OkStatus, first_run_example) \<and>
   chunk_index first_run_example = 0"
proof -
  let ?names = "children CheckpointsDirectory (files latest_example)"
  have names: "?names = [''checkpoint_2'', ''checkpoint_10'', ''checkpoint_9'']"
    unfolding latest_example_def by code_simp
  have idx: "GetFileIndex ''checkpoint_2'' ''checkpoint'' = Inr 2"
    "GetFileIndex ''checkpoint_10'' ''checkpoint'' = Inr 10"
    "GetFileIndex ''checkpoint_9'' ''checkpoint'' = Inr 9"
    by code_simp+
  have f: "fault latest_example = None" by (simp add: latest_example_def SnapshotStreamWriter_def)
  have all: "\<forall>name \<in> set ?names. \<exists>i. GetFileIndex name ''checkpoint'' = Inr i"
    using idx by (simp add: names)
  have S: "{i. \<exists>name \<in> set ?names. GetFileIndex name ''checkpoint'' = Inr i} = {2, 10, 9}"
    using idx by (auto simp: names)
  have a: "fst (LastCheckpointIndex latest_example) = Inr 10"
    using LastCheckpointIndex_maximum[THEN conjunct1, of latest_example] f all S
    by (simp add: names)
  have f0: "fault first_run_example = None"
    and c0: "children CheckpointsDirectory (files first_run_example) = []"
    by (simp_all add: first_run_example_def SnapshotStreamWriter_def children_def)
  have b: "fst (LastCheckpointIndex first_run_example) = Inl NOT_FOUND \<and>
    Restore first_run_example = (OkStatus, first_run_example)"
    using LastCheckpointIndex_maximum[THEN conjunct2, THEN conjunct1, of first_run_example] f0 c0
    by simp
  have c: "chunk_index first_run_example = 0"
    using LastCheckpointIndex_maximum[THEN conjunct2, THEN conjunct2, of "[]" 2 "\<lambda>e. int (length e)"
        "[[Data 1], [Data 2], [Data (3 :: nat)]]"]
    by (simp add: first_run_example_def children_def)
  from a b c show ?thesis by simp
qed

subsection \<open>C8: a malformed checkpoint\<close>

text \<open>
  Claim C8. When the file of the latest checkpoint holds a payload that is not exactly one
  tensor, \<^verbatim>\<open>Restore\<close> fails, and the position of the source, \<open>chunk_index\<close> and the files
  are as before. When no call to a collaborator fails, the failure is the internal error,
  the object is unchanged, and \<^verbatim>\<open>WriteSnapshotFn\<close> ends with that error without entering the
  write loop.
\<close>

theorem Restore_malformed_checkpoint:
  assumes "fst (LastCheckpointIndex s) = Inr k"
    and "map_of (files s) (CheckpointPath k) = Some payload"
    and "length payload \<noteq> 1"
    and "Restore s = (st, s')"
  shows "st \<noteq> OkStatus \<and> cursor s' = cursor s \<and> chunk_index s' = chunk_index s \<and>
    files s' = files s \<and>
    (fault s = None \<longrightarrow>
       st = Error INTERNAL \<and> s' = s \<and> WriteSnapshotFn s = Some (Error INTERNAL, s))"
proof -
  have len: "length (file_contents (files s) (CheckpointPath k)) \<noteq> 1"
    using assms(2,3) by (simp add: file_contents_def)
  note r = Restore_found[OF assms(4,1)]
  have a: "st \<noteq> OkStatus \<and> cursor s' = cursor s \<and> files s' = files s"
    using r(4)[OF len] by simp
  with r(3) have b: "chunk_index s' = chunk_index s" by simp
  have c: "st = Error INTERNAL \<and> s' = s \<and> WriteSnapshotFn s = Some (Error INTERNAL, s)"
    if f: "fault s = None"
  proof -
    have r: "Restore s = (Error INTERNAL, s)"
      using f assms(1,2,3) by (rule Restore_malformed_no_fault)
    then have "WriteSnapshotFn s = Some (Error INTERNAL, s)"
      using f by (simp add: WriteSnapshotFn_def)
    with assms(4) r show ?thesis by simp
  qed
  from a b c show ?thesis by blast
qed

theorem Restore_malformed_checkpoint_witness:
  "Restore malformed_payload_example = (Error INTERNAL, malformed_payload_example) \<and>
   WriteSnapshotFn malformed_payload_example = Some (Error INTERNAL, malformed_payload_example)"
proof -
  have k: "fst (LastCheckpointIndex malformed_payload_example) = Inr 1"
    unfolding malformed_payload_example_def by code_simp
  have p: "CheckpointPath 1 = (CheckpointsDirectory, ''checkpoint_1'')" by code_simp
  have payload: "map_of (files malformed_payload_example) (CheckpointPath 1) = Some [Variant 1, Variant 2]"
    by (simp add: p malformed_payload_example_def SnapshotStreamWriter_def)
  have len: "length [Variant 1, Variant 2 :: nat tensor] \<noteq> 1" by simp
  have f: "fault malformed_payload_example = None"
    by (simp add: malformed_payload_example_def SnapshotStreamWriter_def)
  have run: "Restore malformed_payload_example =
    (fst (Restore malformed_payload_example), snd (Restore malformed_payload_example))" by simp
  from Restore_malformed_checkpoint[OF k payload len run] f
  have "fst (Restore malformed_payload_example) = Error INTERNAL"
    "snd (Restore malformed_payload_example) = malformed_payload_example"
    "WriteSnapshotFn malformed_payload_example = Some (Error INTERNAL, malformed_payload_example)"
    by simp_all
  then show ?thesis by (simp add: prod_eq_iff)
qed

subsection \<open>C6: cancellation\<close>

text \<open>
  As stated, C6 says that \<^verbatim>\<open>Wait()\<close> returns the cancelled status once \<^verbatim>\<open>Cancel()\<close> has been
  called. In the run below \<^verbatim>\<open>Cancel()\<close> takes the mutex while the first chunk is being
  written, the record loop observes it after one element, and the rename that commits the
  chunk then fails: the snapshot thread stores that failure over the cancelled status, and
  \<^verbatim>\<open>Wait()\<close> returns it.
\<close>

theorem Wait_after_Cancel_counterexample:
  "map_option (\<lambda>(st, s). (st, cancel_in s, file_contents (files s) (UncommittedChunksDirectory, ''chunk_0'')))
     (Wait cancel_then_failure_example) = Some (Error UNAVAILABLE, None, [Data 1])"
  unfolding cancel_then_failure_example_def cancel_example_def
  by code_simp

text \<open>
  Claim C6, amended. A check that reads a status that is not ok under the mutex is false:
  no chunk is started, no element is pulled and no checkpoint is saved. With a status that
  is not ok and no cancellation pending, the write loop and the record loop return at once
  and change nothing. Once \<^verbatim>\<open>Cancel()\<close> has been called (it has stored the cancelled status,
  or it is waiting for the mutex), \<^verbatim>\<open>WriteSnapshotFn\<close> and \<^verbatim>\<open>Wait()\<close> return. When
  \<^verbatim>\<open>Cancel()\<close> has taken the mutex by the time \<^verbatim>\<open>Wait()\<close> returns, \<^verbatim>\<open>Wait()\<close> returns the
  cancelled status if \<^verbatim>\<open>WriteSnapshotFn\<close> returned ok, or if \<^verbatim>\<open>Cancel()\<close> took the mutex
  between the snapshot thread storing its failure and \<^verbatim>\<open>Wait()\<close> reading the status;
  otherwise the thread stored its failure after \<^verbatim>\<open>Cancel()\<close>, and \<^verbatim>\<open>Wait()\<close> returns the
  status that \<^verbatim>\<open>WriteSnapshotFn\<close> returned. A second \<^verbatim>\<open>Wait()\<close>, with no cancellation
  pending, returns the same status and changes nothing.
\<close>

theorem Cancel_stops_writer:
  "(status (mutex_lock s) \<noteq> OkStatus \<longrightarrow>
      \<not> fst (ShouldWriteChunk s) \<and> \<not> fst (ShouldWriteRecord s) \<and> \<not> fst (ShouldSave s)) \<and>
   (status s \<noteq> OkStatus \<and> cancel_in s = None \<longrightarrow>
      WriteSnapshotFn_loop s = Some (OkStatus, s) \<and> WriteChunk_loop writer s = (OkStatus, s)) \<and>
   (cancel_in s \<noteq> None \<or> status s = Error CANCELLED \<longrightarrow>
      (\<exists>r s0 st s1. WriteSnapshotFn s = Some (r, s0) \<and> Wait s = Some (st, s1) \<and>
         (snapshot_thread s \<and> cancel_in s1 = None \<longrightarrow>
            st = (if ok r \<or> cancel_in s0 = Some 1 then Error CANCELLED else r)))) \<and>
   (Wait s = Some (st, s1) \<and> cancel_in s1 = None \<longrightarrow> Wait s1 = Some (st, s1))"
proof (intro conjI impI)
  assume "status (mutex_lock s) \<noteq> OkStatus"
  then have "\<not> ok (status (mutex_lock s))" by (cases "status (mutex_lock s)") simp_all
  then show "\<not> fst (ShouldWriteChunk s)" "\<not> fst (ShouldWriteRecord s)" "\<not> fst (ShouldSave s)"
    by (simp_all add: ShouldWriteChunk_def ShouldWriteRecord_def ShouldSave_def Let_def)
next
  assume a: "status s \<noteq> OkStatus \<and> cancel_in s = None"
  then have n: "\<not> ok (status s)" by (cases "status s") simp_all
  from a n show "WriteSnapshotFn_loop s = Some (OkStatus, s)"
    by (subst WriteSnapshotFn_loop.simps) (simp add: ShouldWriteChunk_def Let_def)
  from a n show "WriteChunk_loop writer s = (OkStatus, s)"
    by (subst WriteChunk_loop.simps) (simp add: ShouldWriteRecord_def Let_def)
next
  assume called: "cancel_in s \<noteq> None \<or> status s = Error CANCELLED"
  from WriteSnapshotFn_returns[OF called] obtain r s0 where w: "WriteSnapshotFn s = Some (r, s0)"
    by blast
  note c = WriteSnapshotFn_cases[OF w]
  define t where "t = (if \<not> ok r then (mutex_lock s0)\<lparr>status := r\<rparr> else s0)"
  define u where "u = (if snapshot_thread s then t else s)"
  define t1 where "t1 = mutex_lock (u\<lparr>snapshot_thread := False\<rparr>)"
  have wait: "Wait s = Some (status t1, t1)"
    using w by (simp add: Wait_def snapshot_fn_def Let_def t_def u_def t1_def)
  have "status t1 = (if ok r \<or> cancel_in s0 = Some 1 then Error CANCELLED else r)"
    if th: "snapshot_thread s" and c1: "cancel_in t1 = None"
  proof (cases "ok r")
    case True
    then have s0: "status s0 = OkStatus" by (rule c(2))
    have "cancel_in s0 \<noteq> None"
    proof
      assume n: "cancel_in s0 = None"
      with c(1) called have "status s0 = Error CANCELLED"
        by (cases "cancel_in s") (auto simp: lock_rel_def)
      with s0 show False by simp
    qed
    moreover from True th have "t1 = mutex_lock (s0\<lparr>snapshot_thread := False\<rparr>)"
      by (simp add: t1_def u_def t_def)
    ultimately have "status t1 = Error CANCELLED"
      using c1 by (auto simp: mutex_lock_def Cancel_def split: option.splits if_splits)
    with True show ?thesis by simp
  next
    case False
    with th have t1: "t1 = mutex_lock ((mutex_lock s0)\<lparr>status := r, snapshot_thread := False\<rparr>)"
      by (simp add: t1_def u_def t_def)
    show ?thesis
    proof (cases "cancel_in s0")
      case None
      with t1 False show ?thesis by simp
    next
      case (Some m)
      show ?thesis
      proof (cases m)
        case 0
        with Some t1 False show ?thesis by (simp add: mutex_lock_def Cancel_def)
      next
        case (Suc k)
        with Some t1 c1 have "k = 0"
          by (cases k) (simp_all add: mutex_lock_def Cancel_def)
        with Suc Some t1 False show ?thesis by (simp add: mutex_lock_def Cancel_def)
      qed
    qed
  qed
  with w wait show "\<exists>r s0 st s1. WriteSnapshotFn s = Some (r, s0) \<and> Wait s = Some (st, s1) \<and>
         (snapshot_thread s \<and> cancel_in s1 = None \<longrightarrow>
            st = (if ok r \<or> cancel_in s0 = Some 1 then Error CANCELLED else r))"
    by (intro exI[of _ r] exI[of _ s0] exI[of _ "status t1"] exI[of _ t1]) simp
next
  assume a: "Wait s = Some (st, s1) \<and> cancel_in s1 = None"
  then have "\<not> snapshot_thread s1 \<and> st = status s1"
    by (auto simp: Wait_def Let_def mutex_lock_def Cancel_def split: option.splits if_splits)
  moreover have "s1\<lparr>snapshot_thread := False\<rparr> = s1" if "\<not> snapshot_thread s1"
    using that by (cases s1) simp
  ultimately show "Wait s1 = Some (st, s1)" using a by (simp add: Wait_def Let_def)
qed

theorem Cancel_stops_writer_witness:
  "fst (the (Wait cancel_example)) = Error CANCELLED \<and>
   Wait (snd (the (Wait cancel_example))) = Wait cancel_example \<and>
   \<not> fst (ShouldWriteChunk (snd (the (Wait cancel_example)))) \<and>
   map_option fst (Wait cancel_endless_example) = Some (Error CANCELLED)"
proof -
  have pre': "cancel_in cancel_endless_example \<noteq> None" "snapshot_thread cancel_endless_example"
    by (simp_all add: cancel_endless_example_def SnapshotStreamWriter_def)
  from Cancel_stops_writer[THEN conjunct2, THEN conjunct2, THEN conjunct1, of cancel_endless_example] pre'
  obtain r' s0' st' s1' where f': "WriteSnapshotFn cancel_endless_example = Some (r', s0')"
    and w': "Wait cancel_endless_example = Some (st', s1')"
    and v': "cancel_in s1' = None \<Longrightarrow>
      st' = (if ok r' \<or> cancel_in s0' = Some 1 then Error CANCELLED else r')"
    by auto
  have "map_option (\<lambda>(st, s). cancel_in s) (Wait cancel_endless_example) = Some None"
    unfolding cancel_endless_example_def by code_simp
  with w' have c1': "cancel_in s1' = None" by simp
  have "map_option fst (WriteSnapshotFn cancel_endless_example) = Some (Error CANCELLED)"
    unfolding cancel_endless_example_def by code_simp
  with f' have "r' = Error CANCELLED" by simp
  with v'[OF c1'] w' have d: "map_option fst (Wait cancel_endless_example) = Some (Error CANCELLED)"
    by simp
  have pre: "snapshot_thread cancel_example" "cancel_in cancel_example \<noteq> None"
    by (simp_all add: cancel_example_def SnapshotStreamWriter_def)
  from Cancel_stops_writer[THEN conjunct2, THEN conjunct2, THEN conjunct1, of cancel_example] pre
  obtain r s0 st s1 where f: "WriteSnapshotFn cancel_example = Some (r, s0)"
    and w: "Wait cancel_example = Some (st, s1)"
    and v: "cancel_in s1 = None \<Longrightarrow> st = (if ok r \<or> cancel_in s0 = Some 1 then Error CANCELLED else r)"
    by auto
  have "map_option (\<lambda>(st, s). (cancel_in s, status s)) (Wait cancel_example) = Some (None, Error CANCELLED)"
    unfolding cancel_example_def by code_simp
  with w have c1: "cancel_in s1 = None" and st1: "status s1 = Error CANCELLED" by simp_all
  have "map_option fst (WriteSnapshotFn cancel_example) = Some (Error CANCELLED)"
    unfolding cancel_example_def by code_simp
  with f have r: "r = Error CANCELLED" by simp
  from v[OF c1] r have a: "st = Error CANCELLED" by simp
  from Cancel_stops_writer[THEN conjunct2, THEN conjunct2, THEN conjunct2, of cancel_example st s1] w c1
  have b: "Wait s1 = Wait cancel_example" by simp
  from Cancel_stops_writer[THEN conjunct1, of s1] st1 c1
  have c: "\<not> fst (ShouldWriteChunk s1)" by simp
  from a b c d w show ?thesis by simp
qed

subsection \<open>C10: the last writer of the status wins\<close>

text \<open>
  Claim C10. \<^verbatim>\<open>Cancel()\<close> stores the cancelled status whatever the status was. When the
  snapshot thread has ended and \<^verbatim>\<open>Cancel()\<close> takes the mutex next, before \<^verbatim>\<open>Wait()\<close> reads,
  \<^verbatim>\<open>Wait()\<close> returns the cancelled status, whatever the thread had stored. When
  \<^verbatim>\<open>WriteSnapshotFn\<close> fails and no cancellation is pending once the thread has taken the
  mutex to store the failure, \<^verbatim>\<open>Wait()\<close> returns that failure, also if the status was
  cancelled before. On a joined writer with no cancellation pending, \<^verbatim>\<open>Wait()\<close> after
  \<^verbatim>\<open>Cancel()\<close> returns the cancelled status.
\<close>

theorem Cancel_overwrites_status:
  "status (Cancel s) = Error CANCELLED \<and>
   (snapshot_thread s \<and> snapshot_fn s = Some s1 \<and> cancel_in s1 = Some 0 \<longrightarrow>
      Wait s = Some (Error CANCELLED, Cancel (s1\<lparr>snapshot_thread := False, cancel_in := None\<rparr>))) \<and>
   (snapshot_thread s \<and> WriteSnapshotFn s = Some (Error c, s0) \<and> cancel_in (mutex_lock s0) = None \<longrightarrow>
      Wait s = Some (Error c, (mutex_lock s0)\<lparr>status := Error c, snapshot_thread := False\<rparr>)) \<and>
   (\<not> snapshot_thread s \<and> cancel_in s = None \<longrightarrow>
      Wait (Cancel s) = Some (Error CANCELLED, Cancel s))"
proof (intro conjI impI)
  show "status (Cancel s) = Error CANCELLED" by (simp add: Cancel_def)
next
  assume "snapshot_thread s \<and> snapshot_fn s = Some s1 \<and> cancel_in s1 = Some 0"
  then show "Wait s = Some (Error CANCELLED, Cancel (s1\<lparr>snapshot_thread := False, cancel_in := None\<rparr>))"
    by (simp add: Wait_def Let_def mutex_lock_def Cancel_def)
next
  assume "snapshot_thread s \<and> WriteSnapshotFn s = Some (Error c, s0) \<and> cancel_in (mutex_lock s0) = None"
  then show "Wait s = Some (Error c, (mutex_lock s0)\<lparr>status := Error c, snapshot_thread := False\<rparr>)"
    by (simp add: Wait_def snapshot_fn_def Let_def)
next
  assume a: "\<not> snapshot_thread s \<and> cancel_in s = None"
  then have "(Cancel s)\<lparr>snapshot_thread := False\<rparr> = Cancel s"
    by (cases s) (simp add: Cancel_def)
  with a show "Wait (Cancel s) = Some (Error CANCELLED, Cancel s)"
    by (simp add: Wait_def Let_def Cancel_def)
qed

theorem Cancel_overwrites_status_witness:
  "map_option status (snapshot_fn failure_then_cancel_example) = Some (Error UNAVAILABLE) \<and>
   map_option fst (Wait failure_then_cancel_example) = Some (Error CANCELLED)"
proof -
  define s1 where "s1 = the (snapshot_fn failure_then_cancel_example)"
  have "map_option (\<lambda>s. (status s, cancel_in s)) (snapshot_fn failure_then_cancel_example) =
      Some (Error UNAVAILABLE, Some 0)"
    unfolding failure_then_cancel_example_def by code_simp
  then have f: "snapshot_fn failure_then_cancel_example = Some s1"
    and st: "status s1 = Error UNAVAILABLE" and c: "cancel_in s1 = Some 0"
    by (auto simp: s1_def)
  have t: "snapshot_thread failure_then_cancel_example"
    by (simp add: failure_then_cancel_example_def SnapshotStreamWriter_def)
  from Cancel_overwrites_status[THEN conjunct2, THEN conjunct1, of failure_then_cancel_example s1] t f c
  have "Wait failure_then_cancel_example =
      Some (Error CANCELLED, Cancel (s1\<lparr>snapshot_thread := False, cancel_in := None\<rparr>))"
    by simp
  with f st show ?thesis by simp
qed

subsection \<open>C3: resuming after a crash\<close>


end
